theory Spec2Isabelle
  imports Main "HOL-Library.Sublist" "HOL-Library.List_Lexorder" "HOL-Library.Char_ord"
begin

unbundle bit_operations_syntax

section \<open>Strings, bytes and the random source\<close>

text \<open>
  A Python \<^verbatim>\<open>str\<close> is held as the list of its UTF-8 bytes (\<^typ>\<open>string\<close>, one
  \<^typ>\<open>char\<close> per byte).  The scripts only concatenate strings, search them for ASCII
  tokens, replace ASCII tokens and encode them as UTF-8; on valid UTF-8 all of these act
  on the bytes exactly as they act on the code points, and \<^verbatim>\<open>s.encode('utf-8')\<close> is the
  byte list itself.

  Randomness (\<^verbatim>\<open>random\<close>, \<^verbatim>\<open>os.urandom\<close>, the names of \<^verbatim>\<open>tempfile\<close>) is an
  explicit source: an infinite sequence of raw draws and a cursor that every draw advances.
\<close>

type_synonym entropy = "nat \<Rightarrow> nat"

datatype py_error =
    SystemExit string
  | CalledProcessError int
  | IndexError
  | FileExistsError
  | FileNotFoundError
  | NotADirectoryError
  | IsADirectoryError
  | OSError

text \<open>\<^verbatim>\<open>random.randint(a, b)\<close>: an integer of the closed range; every call of the
  script has \<open>a \<le> b\<close>.\<close>

definition randint :: "entropy \<Rightarrow> int \<Rightarrow> int \<Rightarrow> nat \<Rightarrow> int \<times> nat" where
  "randint rnd a b c = (a + int (rnd c) mod (b - a + 1), Suc c)"

text \<open>\<^verbatim>\<open>random.choice(seq)\<close> raises \<^verbatim>\<open>IndexError\<close> on an empty sequence.\<close>

definition choice :: "entropy \<Rightarrow> 'a list \<Rightarrow> nat \<Rightarrow> (py_error + 'a) \<times> nat" where
  "choice rnd xs c =
     (if xs = [] then (Inl IndexError, c) else (Inr (xs ! (rnd c mod length xs)), Suc c))"

text \<open>\<^verbatim>\<open>random.choices(population, k=k)\<close> for a non-empty population: \<open>k\<close>
  independent picks.\<close>

definition choices :: "entropy \<Rightarrow> 'a list \<Rightarrow> nat \<Rightarrow> nat \<Rightarrow> 'a list \<times> nat" where
  "choices rnd population k c =
     (map (\<lambda>i. population ! (rnd (c + i) mod length population)) [0..<k], c + k)"

text \<open>\<^verbatim>\<open>os.urandom(n)\<close>: \<open>n\<close> bytes.\<close>

definition urandom :: "entropy \<Rightarrow> nat \<Rightarrow> nat \<Rightarrow> string \<times> nat" where
  "urandom rnd n c = (map (\<lambda>i. char_of (rnd (c + i))) [0..<n], c + n)"

text \<open>\<^verbatim>\<open>s.replace(old, new)\<close>: every non-overlapping occurrence, leftmost first; an
  empty \<open>old\<close> matches before every character and at the end.\<close>

function py_replace :: "string \<Rightarrow> string \<Rightarrow> string \<Rightarrow> string" where
  "py_replace old new [] = (if old = [] then new else [])"
| "py_replace old new (c # cs) =
     (if old = [] then new @ concat (map (\<lambda>x. x # new) (c # cs))
      else if prefix old (c # cs) then new @ py_replace old new (drop (length old) (c # cs))
      else c # py_replace old new cs)"
  by pat_completeness auto
termination
  by (relation "measure (\<lambda>(old, new, s). length s)") (auto simp: neq_Nil_conv)

declare py_replace.simps(2) [simp del]

text \<open>\<^verbatim>\<open>sub in s\<close> on strings.\<close>

fun str_in :: "string \<Rightarrow> string \<Rightarrow> bool" where
  "str_in sub [] = (sub = [])"
| "str_in sub (c # cs) = (prefix sub (c # cs) \<or> str_in sub cs)"

text \<open>\<^verbatim>\<open>str(n)\<close> and the format \<^verbatim>\<open>{:02x}\<close> (lowercase hexadecimal, zero-padded to
  width 2) of a non-negative integer.\<close>

definition digit_char :: "int \<Rightarrow> char" where
  "digit_char d = ''0123456789abcdef'' ! nat d"

function radix_digits :: "int \<Rightarrow> int \<Rightarrow> string" where
  "radix_digits b n =
     (if n < b \<or> b < 2 then [digit_char n]
      else radix_digits b (n div b) @ [digit_char (n mod b)])"
  by pat_completeness auto
termination
  by (relation "measure (\<lambda>(b, n). nat n)") (auto intro: int_div_less_self)

declare radix_digits.simps [simp del]

definition hex_chars :: "char set" where
  "hex_chars = set ''0123456789abcdef''"

definition str_int :: "int \<Rightarrow> string" where
  "str_int n = (if n < 0 then CHR ''-'' # radix_digits 10 (- n) else radix_digits 10 n)"

definition format_02x :: "int \<Rightarrow> string" where
  "format_02x n = (let h = radix_digits 16 n in replicate (2 - length h) CHR ''0'' @ h)"

definition encode_utf8 :: "string \<Rightarrow> int list" where
  "encode_utf8 s = map of_char s"

section \<open>Content generator (generate\_binaries.py)\<close>

definition ascii_lowercase :: string where
  "ascii_lowercase = ''abcdefghijklmnopqrstuvwxyz''"

definition digits :: string where
  "digits = ''0123456789''"

definition gen_flag :: "entropy \<Rightarrow> nat \<Rightarrow> string \<times> nat" where
  "gen_flag rnd c =
     (let (body, c') = choices rnd (ascii_lowercase @ digits) 12 c
      in (''flag{'' @ body @ ''}'', c'))"

text \<open>Every \<open>b XOR key\<close> below lies in \<open>range(256)\<close> (lemma \<open>xor_byte_range\<close>), so the
  \<^verbatim>\<open>bytes(...)\<close> constructor never raises.\<close>

definition xor_encode_bytes :: "entropy \<Rightarrow> string \<Rightarrow> nat \<Rightarrow> (string \<times> int) \<times> nat" where
  "xor_encode_bytes rnd s c =
     (let (key, c') = randint rnd 1 255 c;
          enc_bytes = map (\<lambda>b. b XOR key) (encode_utf8 s);
          esc = concat (map (\<lambda>b. [CHR 0x5C, CHR ''x''] @ format_02x b) enc_bytes)
      in ((esc, key), c'))"

definition prepare_program_from_template ::
    "entropy \<Rightarrow> string \<Rightarrow> string \<Rightarrow> nat \<Rightarrow> string \<times> nat" where
  "prepare_program_from_template rnd template_text flag c =
     (let program = py_replace ''{FLAG}'' flag template_text;
          (program, c) =
            (if str_in ''{XOR_ENC}'' program then
               (let ((enc, key), c) = xor_encode_bytes rnd flag c;
                    program = py_replace ''{XOR_ENC}'' enc program;
                    program = py_replace ''{KEY}'' (str_int key) program
                in (program, c))
             else (program, c));
          (program, c) =
            (if str_in ''{RANDOM_INT}'' program then
               (let (ri, c) = randint rnd 1 10000 c;
                    program = py_replace ''{RANDOM_INT}'' (str_int ri) program
                in (program, c))
             else (program, c))
      in (program, c))"

text \<open>What a solver (or the generated C program) does with the emitted text: read the
  \<^verbatim>\<open>\xNN\<close> escapes back into bytes, XOR every byte with the key, read the bytes as
  text.\<close>

definition hexval :: "char \<Rightarrow> int option" where
  "hexval ch =
     (let n = of_char ch :: int in
      if 48 \<le> n \<and> n \<le> 57 then Some (n - 48)
      else if 97 \<le> n \<and> n \<le> 102 then Some (n - 87)
      else if 65 \<le> n \<and> n \<le> 70 then Some (n - 55)
      else None)"

fun unescape :: "string \<Rightarrow> int list option" where
  "unescape [] = Some []"
| "unescape (b # x # h # l # rest) =
     (if b = CHR 0x5C \<and> x = CHR ''x'' then
        (case (hexval h, hexval l, unescape rest) of
           (Some hi, Some lo, Some bs) \<Rightarrow> Some ((16 * hi + lo) # bs)
         | _ \<Rightarrow> None)
      else None)"
| "unescape _ = None"

definition xor_decode :: "string \<Rightarrow> int \<Rightarrow> string option" where
  "xor_decode esc key = map_option (map (\<lambda>b. char_of (b XOR key))) (unescape esc)"

text \<open>The shape \<^verbatim>\<open>flag\{[a-z0-9]{12}\}\<close>.\<close>

definition lower_or_digit :: "char \<Rightarrow> bool" where
  "lower_or_digit ch =
     (let n = of_char ch :: nat in (97 \<le> n \<and> n \<le> 122) \<or> (48 \<le> n \<and> n \<le> 57))"

definition flag_token :: "string \<Rightarrow> bool" where
  "flag_token f =
     (length f = 18 \<and> take 5 f = ''flag{'' \<and> drop 17 f = ''}''
      \<and> list_all lower_or_digit (take 12 (drop 5 f)))"

section \<open>Paths and the file system\<close>

text \<open>
  A location in the file system is the list of its components from the root; the file
  system maps locations to nodes.  There are no symbolic links.  In a well-formed file
  system the parent of every node is a directory.
\<close>

type_synonym path = "string list"

datatype node = Dir | File (content: string) (mode: nat)

type_synonym fs = "path \<Rightarrow> node option"

definition path_exists :: "fs \<Rightarrow> path \<Rightarrow> bool" where
  "path_exists fs p = (fs p \<noteq> None)"

definition is_dir :: "fs \<Rightarrow> path \<Rightarrow> bool" where
  "is_dir fs p = (fs p = Some Dir)"

definition is_file :: "fs \<Rightarrow> path \<Rightarrow> bool" where
  "is_file fs p = (case fs p of Some (File c m) \<Rightarrow> True | _ \<Rightarrow> False)"

definition file_size :: "fs \<Rightarrow> path \<Rightarrow> nat" where
  "file_size fs p = (case fs p of Some (File c m) \<Rightarrow> length c | _ \<Rightarrow> 0)"

definition wf_fs :: "fs \<Rightarrow> bool" where
  "wf_fs fs = (\<forall>p. p \<noteq> [] \<longrightarrow> fs p \<noteq> None \<longrightarrow> fs (butlast p) = Some Dir)"

text \<open>The directory listing: the names directly inside a directory.\<close>

definition listdir :: "fs \<Rightarrow> path \<Rightarrow> string set" where
  "listdir fs d = {n. fs (d @ [n]) \<noteq> None}"

text \<open>\<^verbatim>\<open>pathlib\<close>: the components of a path string (empty components and \<^verbatim>\<open>.\<close> are
  dropped, \<^verbatim>\<open>..\<close> is kept), \<^verbatim>\<open>Path(s).name\<close>, \<^verbatim>\<open>.suffix\<close>, \<^verbatim>\<open>.stem\<close> and
  \<^verbatim>\<open>str(Path(s))\<close>.\<close>

fun split_sep :: "char \<Rightarrow> string \<Rightarrow> string list" where
  "split_sep sep [] = [[]]"
| "split_sep sep (c # cs) =
     (if c = sep then [] # split_sep sep cs
      else (case split_sep sep cs of [] \<Rightarrow> [[c]] | w # ws \<Rightarrow> (c # w) # ws))"

definition parts :: "string \<Rightarrow> string list" where
  "parts s = filter (\<lambda>x. x \<noteq> [] \<and> x \<noteq> ''.'') (split_sep CHR ''/'' s)"

definition is_absolute :: "string \<Rightarrow> bool" where
  "is_absolute s = (s \<noteq> [] \<and> hd s = CHR ''/'')"

definition path_name :: "string \<Rightarrow> string" where
  "path_name s = (if parts s = [] then [] else last (parts s))"

fun rfind :: "char \<Rightarrow> string \<Rightarrow> nat option" where
  "rfind ch [] = None"
| "rfind ch (c # cs) =
     (case rfind ch cs of Some i \<Rightarrow> Some (Suc i) | None \<Rightarrow> (if c = ch then Some 0 else None))"

definition path_suffix :: "string \<Rightarrow> string" where
  "path_suffix name =
     (case rfind CHR ''.'' name of
        Some i \<Rightarrow> (if 0 < i \<and> i < length name - 1 then drop i name else [])
      | None \<Rightarrow> [])"

definition path_stem :: "string \<Rightarrow> string" where
  "path_stem name =
     (case rfind CHR ''.'' name of
        Some i \<Rightarrow> (if 0 < i \<and> i < length name - 1 then take i name else name)
      | None \<Rightarrow> name)"

fun join_sep :: "string list \<Rightarrow> string" where
  "join_sep [] = []"
| "join_sep [x] = x"
| "join_sep (x # y # ys) = x @ ''/'' @ join_sep (y # ys)"

definition path_str :: "string \<Rightarrow> string" where
  "path_str s =
     (if is_absolute s then CHR ''/'' # join_sep (parts s)
      else if parts s = [] then ''.'' else join_sep (parts s))"

definition abs_str :: "path \<Rightarrow> string" where
  "abs_str p = CHR ''/'' # join_sep p"

text \<open>
  \<^verbatim>\<open>Path.resolve()\<close> of a path string for a process in directory \<open>cwd\<close>: the walk is
  lexical (\<^verbatim>\<open>..\<close> drops the last component).  The same walk locates the directories
  named on the command line, which are taken to have no \<^verbatim>\<open>..\<close> component passing
  through a missing directory.
\<close>

fun walk :: "path \<Rightarrow> string list \<Rightarrow> path" where
  "walk p [] = p"
| "walk p (c # cs) = (if c = ''..'' then walk (butlast p) cs else walk (p @ [c]) cs)"

definition locate :: "path \<Rightarrow> string \<Rightarrow> path" where
  "locate cwd s = walk (if is_absolute s then [] else cwd) (parts s)"

text \<open>
  The walk of the operating system for \<open>base / name\<close>: every component passed through
  must be a directory; the last component need not exist.
\<close>

definition lookup_error :: "fs \<Rightarrow> path \<Rightarrow> py_error" where
  "lookup_error fs p = (if path_exists fs p then NotADirectoryError else FileNotFoundError)"

fun os_walk :: "fs \<Rightarrow> path \<Rightarrow> string list \<Rightarrow> py_error + path" where
  "os_walk fs p [] = Inr p"
| "os_walk fs p (c # cs) =
     (if c = ''..'' then
        (if is_dir fs p then os_walk fs (butlast p) cs else Inl (lookup_error fs p))
      else if cs = [] then Inr (p @ [c])
      else if is_dir fs (p @ [c]) then os_walk fs (p @ [c]) cs
      else Inl (lookup_error fs (p @ [c])))"

definition os_join :: "fs \<Rightarrow> path \<Rightarrow> string \<Rightarrow> py_error + path" where
  "os_join fs base s = os_walk fs (if is_absolute s then [] else base) (parts s)"

text \<open>\<^verbatim>\<open>Path.mkdir(parents=True, exist_ok=True)\<close> and \<^verbatim>\<open>Path.mkdir(exist_ok=True)\<close>.\<close>

definition mkdir_parents :: "path \<Rightarrow> fs \<Rightarrow> py_error + fs" where
  "mkdir_parents p fs =
     (if is_file fs p then Inl FileExistsError
      else if list_ex (is_file fs) (prefixes p) then Inl NotADirectoryError
      else Inr (\<lambda>q. if prefix q p then Some Dir else fs q))"

definition mkdir_exist_ok :: "path \<Rightarrow> fs \<Rightarrow> py_error + fs" where
  "mkdir_exist_ok p fs =
     (if is_dir fs p then Inr fs
      else if path_exists fs p then Inl FileExistsError
      else if p = [] \<or> \<not> is_dir fs (butlast p) then Inl (lookup_error fs (butlast p))
      else Inr (fs(p \<mapsto> Dir)))"

definition default_mode :: nat where
  "default_mode = 420"

text \<open>\<^verbatim>\<open>Path.write_text\<close>: create or truncate; an existing file keeps its mode.\<close>

definition write_text :: "path \<Rightarrow> string \<Rightarrow> fs \<Rightarrow> py_error + fs" where
  "write_text p s fs =
     (if is_dir fs p then Inl IsADirectoryError
      else if p = [] \<or> \<not> is_dir fs (butlast p) then Inl (lookup_error fs (butlast p))
      else Inr (fs(p \<mapsto> File s (case fs p of Some (File c m) \<Rightarrow> m | _ \<Rightarrow> default_mode))))"

text \<open>\<^verbatim>\<open>open(p, "ab").write(bytes)\<close>.\<close>

definition append_bytes :: "path \<Rightarrow> string \<Rightarrow> fs \<Rightarrow> py_error + fs" where
  "append_bytes p s fs =
     (case fs p of
        Some Dir \<Rightarrow> Inl IsADirectoryError
      | Some (File c m) \<Rightarrow> Inr (fs(p \<mapsto> File (c @ s) m))
      | None \<Rightarrow>
          (if p = [] \<or> \<not> is_dir fs (butlast p) then Inl (lookup_error fs (butlast p))
           else Inr (fs(p \<mapsto> File s default_mode))))"

text \<open>
  \<^verbatim>\<open>shutil.rmtree\<close>.  Removing the working directory of the process, or a directory
  above it, is reported as an error at once: \<^verbatim>\<open>rmtree('.')\<close> raises, and under any other
  spelling every later use of a relative path does.
\<close>

definition rmtree :: "path \<Rightarrow> path \<Rightarrow> fs \<Rightarrow> py_error + fs" where
  "rmtree cwd p fs =
     (if \<not> path_exists fs p then Inl FileNotFoundError
      else if is_file fs p then Inl NotADirectoryError
      else if prefix p cwd then Inl OSError
      else Inr (\<lambda>q. if prefix p q then None else fs q))"

text \<open>
  \<^verbatim>\<open>shutil.copy2(src, dst)\<close>: into the directory \<open>dst\<close> under the name of \<open>src\<close> when
  \<open>dst\<close> is a directory; content and mode are copied; an existing target is overwritten.
\<close>

definition copy2 :: "path \<Rightarrow> path \<Rightarrow> fs \<Rightarrow> py_error + fs" where
  "copy2 src dst fs =
     (let target = (if is_dir fs dst \<and> src \<noteq> [] then dst @ [last src] else dst) in
      case fs src of
        None \<Rightarrow> Inl FileNotFoundError
      | Some Dir \<Rightarrow> Inl IsADirectoryError
      | Some (File c m) \<Rightarrow>
          (if target = src then Inl OSError
           else if is_dir fs target then Inl IsADirectoryError
           else if target = [] \<or> \<not> is_dir fs (butlast target)
             then Inl (lookup_error fs (butlast target))
           else Inr (fs(target \<mapsto> File c m))))"

text \<open>\<^verbatim>\<open>p.chmod(p.stat().st_mode | 0o100)\<close>; the modes of directories are not kept.\<close>

definition chmod_owner_exec :: "path \<Rightarrow> fs \<Rightarrow> py_error + fs" where
  "chmod_owner_exec p fs =
     (case fs p of
        None \<Rightarrow> Inl FileNotFoundError
      | Some Dir \<Rightarrow> Inr fs
      | Some (File c m) \<Rightarrow> Inr (fs(p \<mapsto> File c (m OR 64))))"

section \<open>Build orchestrator (generate\_binaries.py)\<close>

text \<open>
  The template directory is input that a run only reads: a template is its file name, its
  text and what reading its \<^verbatim>\<open>.json\<close> sidecar gives.  The container build tool and the
  JSON serialiser are parameters of the run.
\<close>

record metadata =
  m_cflags :: "string list option"
  m_pad_max :: "int option"
  m_pad :: "int option"
  m_difficulty :: "string option"

datatype sidecar = NoSidecar | Unparseable | Sidecar metadata

record template =
  tname :: string
  tbody :: string
  side :: sidecar

record meta_out =
  mo_template :: string
  mo_flag :: string
  mo_cflags :: string
  mo_pad :: int
  mo_difficulty :: string

text \<open>
  What \<^verbatim>\<open>docker build --output out ctx\<close> does: it is not installed, it exits with a
  non-zero status, or it exports the files of the final image into the output directory.
\<close>

datatype build_outcome = NoSuchProgram | BuildFailed int | Exported "(string \<times> string) list"

text \<open>One value per \<^verbatim>\<open>print\<close> call of the two scripts.\<close>

datatype event =
    MetadataUnreadable string
  | Building string string string string
  | Built path string int
  | TmpNotRemoved path py_error
  | DockerBuildFailed string py_error
  | SummaryHeader
  | SummaryItem meta_out
  | WroteContext path
  | WroteCompose path
  | Hint string

record world =
  files :: fs
  cursor :: nat
  stdout :: "event list"

record gen_env =
  random_src :: entropy
  workdir :: path
  tempdir :: path
  docker :: "string list \<Rightarrow> fs \<Rightarrow> build_outcome"
  json_dumps :: "meta_out \<Rightarrow> string"
  store :: "template list option"

definition NUM :: nat where
  "NUM = 4"

definition DEFAULT_CFLAGS_CHOICES :: "string list" where
  "DEFAULT_CFLAGS_CHOICES = [''-O0 -g'', ''-O2'', ''-Os'', ''-O3'', ''-O1 -s'']"

definition unlines :: "string list \<Rightarrow> string" where
  "unlines ls = concat (map (\<lambda>l. l @ [CHR 0x0A]) ls)"

definition DOCKERFILE :: string where
  "DOCKERFILE = unlines
     [''# syntax=docker/dockerfile:1'',
      ''FROM alpine AS build'',
      ''RUN apk add --no-cache gcc musl-dev'',
      ''WORKDIR /src'',
      ''COPY program.c .'',
      ''ARG CFLAGS'',
      ''RUN gcc $CFLAGS -static -o /bin/challenge program.c'',
      ''FROM scratch'',
      ''COPY --from=build /bin/challenge /challenge'',
      ''ENTRYPOINT ['' @ [CHR 0x22] @ ''/challenge'' @ [CHR 0x22] @ '']'']"

definition TEMPLATES_DIR :: "gen_env \<Rightarrow> path" where
  "TEMPLATES_DIR E = workdir E @ [''templates'']"

definition OUT_BASE :: "gen_env \<Rightarrow> path" where
  "OUT_BASE E = workdir E @ [''out'']"

definition list_templates :: "gen_env \<Rightarrow> py_error + template list" where
  "list_templates E =
     (case store E of
        None \<Rightarrow> Inl (SystemExit (''Templates directory not found: '' @ abs_str (TEMPLATES_DIR E)))
      | Some ts \<Rightarrow>
          Inr (sort_key tname (filter (\<lambda>t. path_suffix (tname t) \<in> set [''.c'', ''.txt'']) ts)))"

definition empty_metadata :: metadata where
  "empty_metadata = \<lparr>m_cflags = None, m_pad_max = None, m_pad = None, m_difficulty = None\<rparr>"

definition load_metadata :: "template \<Rightarrow> world \<Rightarrow> metadata \<times> world" where
  "load_metadata tpl w =
     (case side tpl of
        NoSidecar \<Rightarrow> (empty_metadata, w)
      | Unparseable \<Rightarrow>
          (empty_metadata,
           w\<lparr>stdout := stdout w @ [MetadataUnreadable (path_stem (tname tpl) @ ''.json'')]\<rparr>)
      | Sidecar m \<Rightarrow> (m, w))"

text \<open>\<^verbatim>\<open>tempfile.mkdtemp(prefix=...)\<close>: up to \<open>TMP_MAX\<close> candidate names of eight random
  characters; the first that does not exist is created.\<close>

definition TMP_MAX :: nat where
  "TMP_MAX = 10000"

definition tmp_characters :: string where
  "tmp_characters = ''abcdefghijklmnopqrstuvwxyz0123456789_''"

fun mkdtemp_loop :: "entropy \<Rightarrow> path \<Rightarrow> string \<Rightarrow> nat \<Rightarrow> world \<Rightarrow> (py_error + path) \<times> world" where
  "mkdtemp_loop r dir pre 0 w = (Inl FileExistsError, w)"
| "mkdtemp_loop r dir pre (Suc n) w =
     (let (name, c) = choices r tmp_characters 8 (cursor w);
          file = dir @ [pre @ name];
          w = w\<lparr>cursor := c\<rparr>
      in if path_exists (files w) file then mkdtemp_loop r dir pre n w
         else if \<not> is_dir (files w) dir then (Inl (lookup_error (files w) dir), w)
         else (Inr file, w\<lparr>files := (files w)(file \<mapsto> Dir)\<rparr>))"

definition mkdtemp :: "gen_env \<Rightarrow> string \<Rightarrow> world \<Rightarrow> (py_error + path) \<times> world" where
  "mkdtemp E pre w = mkdtemp_loop (random_src E) (tempdir E) pre TMP_MAX w"

text \<open>The files of the final image land in the output directory; a directory of the
  same name is left alone.\<close>

fun export_image :: "path \<Rightarrow> (string \<times> string) list \<Rightarrow> fs \<Rightarrow> fs" where
  "export_image out [] fs = fs"
| "export_image out ((n, c) # rest) fs =
     export_image out rest (if is_dir fs (out @ [n]) then fs else fs(out @ [n] \<mapsto> File c 493))"

definition job_out_dir :: "gen_env \<Rightarrow> template \<Rightarrow> nat \<Rightarrow> path" where
  "job_out_dir E tpl idx = OUT_BASE E @ [path_stem (tname tpl) @ ''_'' @ str_int (int idx)]"

definition ctx_prefix :: "template \<Rightarrow> nat \<Rightarrow> string" where
  "ctx_prefix tpl idx = ''ctx_'' @ path_stem (tname tpl) @ ''_'' @ str_int (int idx) @ ''_''"

text \<open>Lines 94--101 of \<^verbatim>\<open>build_one\<close>: generate the flag and the source, write the
  source and the recipe into the build context.\<close>

definition materialize :: "gen_env \<Rightarrow> template \<Rightarrow> path \<Rightarrow> world \<Rightarrow> (py_error + string) \<times> world" where
  "materialize E tpl tmp w =
     (let tpl_text = tbody tpl;
          (flag, c) = gen_flag (random_src E) (cursor w);
          (program_c, c) = prepare_program_from_template (random_src E) tpl_text flag c;
          w = w\<lparr>cursor := c\<rparr>
      in case write_text (tmp @ [''program.c'']) program_c (files w) of
           Inl e \<Rightarrow> (Inl e, w)
         | Inr fs1 \<Rightarrow>
        (case write_text (tmp @ [''Dockerfile'']) DOCKERFILE fs1 of
           Inl e \<Rightarrow> (Inl e, w\<lparr>files := fs1\<rparr>)
         | Inr fs2 \<Rightarrow> (Inr flag, w\<lparr>files := fs2\<rparr>)))"

text \<open>Lines 103--109: select the compile flags, run the build.\<close>

definition select_and_build ::
    "gen_env \<Rightarrow> template \<Rightarrow> string list \<Rightarrow> string \<Rightarrow> path \<Rightarrow> path \<Rightarrow> world
      \<Rightarrow> (py_error + string) \<times> world" where
  "select_and_build E tpl cflags_choices difficulty out_dir tmp w =
     (case choice (random_src E) cflags_choices (cursor w) of
        (Inl e, c) \<Rightarrow> (Inl e, w)
      | (Inr cflags, c) \<Rightarrow>
     (let cmd = [''docker'', ''build'', ''--build-arg'', ''CFLAGS='' @ cflags,
                 ''--output'', abs_str out_dir, abs_str tmp];
          w = w\<lparr>cursor := c,
                stdout := stdout w @ [Building (last out_dir) (tname tpl) cflags difficulty]\<rparr>
      in case docker E cmd (files w) of
           NoSuchProgram \<Rightarrow> (Inl FileNotFoundError, w)
         | BuildFailed n \<Rightarrow> (Inl (CalledProcessError n), w)
         | Exported fl \<Rightarrow> (Inr cflags, w\<lparr>files := export_image out_dir fl (files w)\<rparr>)))"

text \<open>Lines 111--118: the optional padding.\<close>

definition pad_binary :: "gen_env \<Rightarrow> int \<Rightarrow> path \<Rightarrow> world \<Rightarrow> (py_error + int) \<times> world" where
  "pad_binary E pad_max bin_path w =
     (if path_exists (files w) bin_path \<and> pad_max \<noteq> 0 \<and> pad_max > 0 then
        (let (pad_len, c) = randint (random_src E) 0 pad_max (cursor w);
             w = w\<lparr>cursor := c\<rparr>
         in if pad_len \<noteq> 0 then
              (let (bytes, c) = urandom (random_src E) (nat pad_len) (cursor w);
                   w = w\<lparr>cursor := c\<rparr>
               in case append_bytes bin_path bytes (files w) of
                    Inl e \<Rightarrow> (Inl e, w)
                  | Inr fs1 \<Rightarrow> (Inr pad_len, w\<lparr>files := fs1\<rparr>))
            else (Inr pad_len, w))
      else (Inr 0, w))"

text \<open>The body of the \<^verbatim>\<open>try\<close> (lines 94--131): build, pad, record.\<close>

definition build_one_try ::
    "gen_env \<Rightarrow> template \<Rightarrow> string list \<Rightarrow> int \<Rightarrow> string \<Rightarrow> path \<Rightarrow> path \<Rightarrow> world
      \<Rightarrow> (py_error + meta_out) \<times> world" where
  "build_one_try E tpl cflags_choices pad_max difficulty out_dir tmp w =
     (case materialize E tpl tmp w of
        (Inl e, w0) \<Rightarrow> (Inl e, w0)
      | (Inr flag, w0) \<Rightarrow>
     (case select_and_build E tpl cflags_choices difficulty out_dir tmp w0 of
        (Inl e, w1) \<Rightarrow> (Inl e, w1)
      | (Inr cflags, w1) \<Rightarrow>
     (case pad_binary E pad_max (out_dir @ [''challenge'']) w1 of
        (Inl e, w2) \<Rightarrow> (Inl e, w2)
      | (Inr pad_len, w2) \<Rightarrow>
     (let meta_out = \<lparr>mo_template = tname tpl, mo_flag = flag, mo_cflags = cflags,
                      mo_pad = pad_len, mo_difficulty = difficulty\<rparr>
      in case write_text (out_dir @ [''meta.json'']) (json_dumps E meta_out) (files w2) of
           Inl e \<Rightarrow> (Inl e, w2)
         | Inr fs1 \<Rightarrow>
             (Inr meta_out,
              w2\<lparr>files := fs1, stdout := stdout w2 @ [Built out_dir flag pad_len]\<rparr>)))))"

text \<open>The \<^verbatim>\<open>finally\<close> (lines 133--137).\<close>

definition build_one_finally :: "gen_env \<Rightarrow> path \<Rightarrow> world \<Rightarrow> world" where
  "build_one_finally E tmp w =
     (case rmtree (workdir E) tmp (files w) of
        Inl e \<Rightarrow> w\<lparr>stdout := stdout w @ [TmpNotRemoved tmp e]\<rparr>
      | Inr fs1 \<Rightarrow> w\<lparr>files := fs1\<rparr>)"

text \<open>Lines 85--87: \<^verbatim>\<open>meta.get\<close> with the defaults.\<close>

definition cflags_choices_of :: "metadata \<Rightarrow> string list" where
  "cflags_choices_of meta = (case m_cflags meta of Some l \<Rightarrow> l | None \<Rightarrow> DEFAULT_CFLAGS_CHOICES)"

definition pad_max_of :: "metadata \<Rightarrow> int" where
  "pad_max_of meta =
     (case m_pad_max meta of
        Some v \<Rightarrow> v
      | None \<Rightarrow> (case m_pad meta of Some v \<Rightarrow> v | None \<Rightarrow> 1024))"

definition difficulty_of :: "metadata \<Rightarrow> string" where
  "difficulty_of meta = (case m_difficulty meta of Some d \<Rightarrow> d | None \<Rightarrow> ''unknown'')"

definition build_one :: "gen_env \<Rightarrow> template \<Rightarrow> nat \<Rightarrow> world \<Rightarrow> (py_error + meta_out) \<times> world" where
  "build_one E tpl idx w =
     (let (meta, w) = load_metadata tpl w;
          cflags_choices = cflags_choices_of meta;
          pad_max = pad_max_of meta;
          difficulty = difficulty_of meta;
          out_dir = job_out_dir E tpl idx
      in case mkdir_parents out_dir (files w) of
           Inl e \<Rightarrow> (Inl e, w)
         | Inr fs1 \<Rightarrow>
        (case mkdtemp E (ctx_prefix tpl idx) (w\<lparr>files := fs1\<rparr>) of
           (Inl e, w1) \<Rightarrow> (Inl e, w1)
         | (Inr tmp, w1) \<Rightarrow>
        (case build_one_try E tpl cflags_choices pad_max difficulty out_dir tmp w1 of
           (r, w2) \<Rightarrow> (r, build_one_finally E tmp w2))))"

text \<open>The loop of the driver: only \<^verbatim>\<open>CalledProcessError\<close> is caught.\<close>

fun job_loop ::
    "gen_env \<Rightarrow> template list \<Rightarrow> nat list \<Rightarrow> meta_out list \<Rightarrow> world
      \<Rightarrow> (py_error + meta_out list) \<times> world" where
  "job_loop E templates [] results w = (Inr results, w)"
| "job_loop E templates (i # rest) results w =
     (case choice (random_src E) templates (cursor w) of
        (Inl e, c) \<Rightarrow> (Inl e, w)
      | (Inr tpl, c) \<Rightarrow>
     (case build_one E tpl i (w\<lparr>cursor := c\<rparr>) of
        (Inr r, w1) \<Rightarrow> job_loop E templates rest (results @ [r]) w1
      | (Inl (CalledProcessError n), w1) \<Rightarrow>
          job_loop E templates rest results
            (w1\<lparr>stdout := stdout w1 @ [DockerBuildFailed (tname tpl) (CalledProcessError n)]\<rparr>)
      | (Inl e, w1) \<Rightarrow> (Inl e, w1)))"

definition gen_main :: "gen_env \<Rightarrow> world \<Rightarrow> (py_error + meta_out list) \<times> world" where
  "gen_main E w =
     (case mkdir_exist_ok (OUT_BASE E) (files w) of
        Inl e \<Rightarrow> (Inl e, w)
      | Inr fs1 \<Rightarrow>
     (case list_templates E of
        Inl e \<Rightarrow> (Inl e, w\<lparr>files := fs1\<rparr>)
      | Inr templates \<Rightarrow>
     (if templates = [] then
        (Inl (SystemExit ''No templates found in templates/''), w\<lparr>files := fs1\<rparr>)
      else
        (case job_loop E templates [0..<NUM] [] (w\<lparr>files := fs1\<rparr>) of
           (Inl e, w1) \<Rightarrow> (Inl e, w1)
         | (Inr results, w1) \<Rightarrow>
             (Inr results,
              w1\<lparr>stdout := stdout w1 @ SummaryHeader # map SummaryItem results\<rparr>)))))"

text \<open>Counting what the run printed: builds started and build failures reported.\<close>

definition is_building :: "event \<Rightarrow> bool" where
  "is_building ev = (case ev of Building d t f x \<Rightarrow> True | _ \<Rightarrow> False)"

definition is_build_failed :: "event \<Rightarrow> bool" where
  "is_build_failed ev = (case ev of DockerBuildFailed t e \<Rightarrow> True | _ \<Rightarrow> False)"

definition builds_started :: "event list \<Rightarrow> nat" where
  "builds_started evs = length (filter is_building evs)"

definition failed_logged :: "event list \<Rightarrow> nat" where
  "failed_logged evs = length (filter is_build_failed evs)"

section \<open>Compose packager (generate\_docker\_compose.py)\<close>

datatype json =
    JNull
  | JBool bool
  | JNum int
  | JStr string
  | JArr "json list"
  | JObj "(string \<times> json) list"

record pk_args =
  arg_json :: string
  arg_workspace :: string
  arg_out :: string
  arg_service :: string
  arg_image :: string

record pk_env =
  pk_cwd :: path
  json_loads :: "string \<Rightarrow> json option"

definition DOCKER_BUILD_DIR :: string where
  "DOCKER_BUILD_DIR = ''docker_build2''"

definition DOCKERFILE_NAME :: string where
  "DOCKERFILE_NAME = ''Dockerfile''"

definition COMPOSE_FILENAME :: string where
  "COMPOSE_FILENAME = ''docker-compose.yml''"

definition default_args :: "string \<Rightarrow> pk_args" where
  "default_args j =
     \<lparr>arg_json = j, arg_workspace = ''.'', arg_out = DOCKER_BUILD_DIR,
      arg_service = ''binaries'', arg_image = ''ctf-binaries:latest''\<rparr>"

definition load_json :: "pk_env \<Rightarrow> path \<Rightarrow> fs \<Rightarrow> py_error + json" where
  "load_json E p fs =
     (case fs p of
        Some (File c m) \<Rightarrow>
          (case json_loads E c of
             Some j \<Rightarrow> Inr j
           | None \<Rightarrow> Inl (SystemExit (''Failed to read JSON '' @ abs_str p)))
      | _ \<Rightarrow> Inl (SystemExit (''Failed to read JSON '' @ abs_str p)))"

fun list_entries :: "json list \<Rightarrow> py_error + (string \<times> string) list" where
  "list_entries [] = Inr []"
| "list_entries (JStr p # rest) =
     (case list_entries rest of Inl e \<Rightarrow> Inl e | Inr es \<Rightarrow> Inr ((path_name p, p) # es))"
| "list_entries (v # rest) = Inl (SystemExit ''JSON list items must be strings (file paths)'')"

fun dict_entries :: "(string \<times> json) list \<Rightarrow> py_error + (string \<times> string) list" where
  "dict_entries [] = Inr []"
| "dict_entries ((k, JStr v) # rest) =
     (case dict_entries rest of Inl e \<Rightarrow> Inl e | Inr es \<Rightarrow> Inr ((k, v) # es))"
| "dict_entries (kv # rest) =
     Inl (SystemExit ''JSON object values must be strings (file paths)'')"

definition normalize_entries :: "json \<Rightarrow> py_error + (string \<times> string) list" where
  "normalize_entries data =
     (case data of
        JArr l \<Rightarrow> list_entries l
      | JObj kvs \<Rightarrow> dict_entries kvs
      | _ \<Rightarrow> Inl (SystemExit
          ''JSON must be an array (list of paths) or an object mapping names to paths''))"

text \<open>The loop of \<^verbatim>\<open>prepare_build_context\<close> (lines 69--76).\<close>

fun copy_entries :: "path \<Rightarrow> path \<Rightarrow> (string \<times> string) list \<Rightarrow> world \<Rightarrow> (py_error + unit) \<times> world" where
  "copy_entries workspace_root out_dir [] w = (Inr (), w)"
| "copy_entries workspace_root out_dir ((name, relpath) # rest) w =
     (let src = locate workspace_root relpath in
      if \<not> path_exists (files w) src then
        (Inl (SystemExit (''Source file not found: '' @ abs_str src)), w)
      else
        (case os_join (files w) out_dir name of
           Inl e \<Rightarrow> (Inl e, w)
         | Inr dest \<Rightarrow>
        (case copy2 src dest (files w) of
           Inl e \<Rightarrow> (Inl e, w)
         | Inr fs1 \<Rightarrow>
        (case chmod_owner_exec dest fs1 of
           Inl e \<Rightarrow> (Inl e, w\<lparr>files := fs1\<rparr>)
         | Inr fs2 \<Rightarrow> copy_entries workspace_root out_dir rest (w\<lparr>files := fs2\<rparr>)))))"

definition prepare_build_context ::
    "path \<Rightarrow> (string \<times> string) list \<Rightarrow> path \<Rightarrow> path \<Rightarrow> world \<Rightarrow> (py_error + unit) \<times> world" where
  "prepare_build_context cwd entries workspace_root out_dir w =
     (case (if path_exists (files w) out_dir then rmtree cwd out_dir (files w)
            else Inr (files w)) of
        Inl e \<Rightarrow> (Inl e, w)
      | Inr fs1 \<Rightarrow>
     (case mkdir_parents out_dir fs1 of
        Inl e \<Rightarrow> (Inl e, w\<lparr>files := fs1\<rparr>)
      | Inr fs2 \<Rightarrow> copy_entries workspace_root out_dir entries (w\<lparr>files := fs2\<rparr>)))"

definition dockerfile_text :: "string \<Rightarrow> string" where
  "dockerfile_text target_dir = unlines
     [''FROM ubuntu:22.04'',
      ''WORKDIR '' @ target_dir,
      ''COPY . '' @ target_dir,
      ''RUN chmod +x '' @ target_dir @ ''/* || true'',
      ''CMD ['' @ [CHR 0x22] @ ''/bin/bash'' @ [CHR 0x22] @ '']'']"

definition write_dockerfile :: "path \<Rightarrow> string \<Rightarrow> fs \<Rightarrow> py_error + fs" where
  "write_dockerfile out_dir target_dir fs =
     write_text (out_dir @ [DOCKERFILE_NAME]) (dockerfile_text target_dir) fs"

definition compose_text :: "string \<Rightarrow> string \<Rightarrow> string \<Rightarrow> string" where
  "compose_text service_name image_name build_dir = unlines
     [''version: '' @ [CHR 0x27] @ ''3.8'' @ [CHR 0x27],
      ''services:'',
      ''  '' @ service_name @ '':'',
      ''    build:'',
      ''      context: '' @ build_dir,
      ''    image: '' @ image_name,
      ''    tty: true'']"

definition write_compose :: "string \<Rightarrow> string \<Rightarrow> string \<Rightarrow> path \<Rightarrow> fs \<Rightarrow> py_error + fs" where
  "write_compose service_name image_name build_dir compose_path fs =
     write_text compose_path (compose_text service_name image_name build_dir) fs"

text \<open>Lines 113--114 and 121 of \<^verbatim>\<open>main\<close>: the workspace root, the manifest and the
  output directory.\<close>

definition workspace_of :: "pk_env \<Rightarrow> pk_args \<Rightarrow> path" where
  "workspace_of E args = locate (pk_cwd E) (arg_workspace args)"

definition json_path_of :: "pk_env \<Rightarrow> pk_args \<Rightarrow> path" where
  "json_path_of E args =
     (if \<not> is_absolute (arg_json args) then locate (workspace_of E args) (arg_json args)
      else locate [] (arg_json args))"

definition out_dir_of :: "pk_env \<Rightarrow> pk_args \<Rightarrow> path" where
  "out_dir_of E args = locate (pk_cwd E) (arg_out args)"

definition packager_main :: "pk_env \<Rightarrow> pk_args \<Rightarrow> world \<Rightarrow> (py_error + unit) \<times> world" where
  "packager_main E args w =
     (let workspace = workspace_of E args;
          json_path = json_path_of E args
      in if \<not> path_exists (files w) json_path then
           (Inl (SystemExit (''JSON file not found: '' @ abs_str json_path)), w)
         else
        (case load_json E json_path (files w) of
           Inl e \<Rightarrow> (Inl e, w)
         | Inr raw \<Rightarrow>
        (case normalize_entries raw of
           Inl e \<Rightarrow> (Inl e, w)
         | Inr entries \<Rightarrow>
        (let out_dir = out_dir_of E args in
         case prepare_build_context (pk_cwd E) entries workspace out_dir w of
           (Inl e, w1) \<Rightarrow> (Inl e, w1)
         | (Inr u, w1) \<Rightarrow>
        (case write_dockerfile out_dir ''/opt/binaries'' (files w1) of
           Inl e \<Rightarrow> (Inl e, w1)
         | Inr fs1 \<Rightarrow>
        (let compose_path = pk_cwd E @ [COMPOSE_FILENAME] in
         case write_compose (arg_service args) (arg_image args) (path_str (arg_out args))
                compose_path fs1 of
           Inl e \<Rightarrow> (Inl e, w1\<lparr>files := fs1\<rparr>)
         | Inr fs2 \<Rightarrow>
             (Inr (),
              w1\<lparr>files := fs2,
                 stdout := stdout w1 @
                   [WroteContext out_dir, WroteCompose compose_path,
                    Hint ''To build: docker-compose build'',
                    Hint ''To run: docker-compose up --build'']\<rparr>)))))))"

text \<open>A file name: one path component that is neither empty, \<^verbatim>\<open>.\<close> nor \<^verbatim>\<open>..\<close>.\<close>

definition plain_name :: "string \<Rightarrow> bool" where
  "plain_name n = (n \<noteq> [] \<and> CHR ''/'' \<notin> set n \<and> n \<noteq> ''.'' \<and> n \<noteq> ''..'')"

section \<open>Example runs\<close>

text \<open>A small file system, one template, and three environments: a build tool that
  exports the binary, one that exits with status 1, and a template whose sidecar offers
  no compile flags at all.\<close>

definition demo_fs :: fs where
  "demo_fs = Map.empty([] \<mapsto> Dir, [''home''] \<mapsto> Dir, [''tmp''] \<mapsto> Dir)"

definition demo_world :: world where
  "demo_world = \<lparr>files = demo_fs, cursor = 0, stdout = []\<rparr>"

definition demo_tpl :: template where
  "demo_tpl = \<lparr>tname = ''a.c'', tbody = ''x={FLAG};'', side = NoSidecar\<rparr>"

definition demo_env :: gen_env where
  "demo_env =
     \<lparr>random_src = (\<lambda>n. n), workdir = [''home''], tempdir = [''tmp''],
      docker = (\<lambda>cmd fs. Exported [(''challenge'', ''ELF'')]),
      json_dumps = mo_flag,
      store = Some [demo_tpl]\<rparr>"

definition failing_env :: gen_env where
  "failing_env = demo_env\<lparr>docker := (\<lambda>cmd fs. BuildFailed 1)\<rparr>"

definition no_cflags_tpl :: template where
  "no_cflags_tpl =
     \<lparr>tname = ''a.c'', tbody = ''x={FLAG};'',
      side = Sidecar \<lparr>m_cflags = Some [], m_pad_max = None, m_pad = None, m_difficulty = None\<rparr>\<rparr>"

definition no_cflags_env :: gen_env where
  "no_cflags_env = demo_env\<lparr>store := Some [no_cflags_tpl]\<rparr>"


text \<open>The packager: a workspace with two binaries and a build context left by an
  earlier run; the parser is a table from manifest texts to their JSON values.\<close>

definition pk_fs :: fs where
  "pk_fs = Map.empty
     ([] \<mapsto> Dir, [''home''] \<mapsto> Dir,
      [''home'', ''bins''] \<mapsto> Dir,
      [''home'', ''bins'', ''a.bin''] \<mapsto> File ''AAAA'' 420,
      [''home'', ''bins'', ''b.bin''] \<mapsto> File ''BB'' 420,
      [''home'', ''a.bin''] \<mapsto> File ''A'' 420,
      [''home'', ''b.bin''] \<mapsto> File ''B'' 420,
      [''home'', ''map.json''] \<mapsto> File ''map'' 420,
      [''home'', ''missing.json''] \<mapsto> File ''missing'' 420,
      [''home'', ''dots.json''] \<mapsto> File ''dots'' 420,
      [''home'', ''same.json''] \<mapsto> File ''same'' 420,
      [''home'', ''docker_build2''] \<mapsto> Dir,
      [''home'', ''docker_build2'', ''old.bin''] \<mapsto> File ''OLD'' 493)"

definition pk_world :: world where
  "pk_world = \<lparr>files = pk_fs, cursor = 0, stdout = []\<rparr>"

definition two_bins :: json where
  "two_bins = JObj [(''a.bin'', JStr ''bins/a.bin''), (''b.bin'', JStr ''bins/b.bin'')]"

definition demo_loads :: "string \<Rightarrow> json option" where
  "demo_loads s =
     (if s = ''map'' then Some two_bins
      else if s = ''missing'' then Some (JArr [JStr ''nope.bin''])
      else if s = ''dots'' then Some (JArr [JStr ''a.bin/x/..'', JStr ''b.bin/y/..''])
      else if s = ''same'' then Some (JArr [JStr ''bins/a.bin'', JStr ''a.bin''])
      else None)"

definition pk_demo_env :: pk_env where
  "pk_demo_env = \<lparr>pk_cwd = [''home''], json_loads = demo_loads\<rparr>"

section \<open>Properties of the content generator\<close>

subsection \<open>Replacement and search\<close>

lemma str_in_sublist: "str_in sub s = sublist sub s"
  by (induction s) (auto simp: sublist_Cons_right)

lemma py_replace_match:
  "old \<noteq> [] \<Longrightarrow> py_replace old new (old @ rest) = new @ py_replace old new rest"
  by (cases old) (simp_all add: py_replace.simps(2))

lemma py_replace_skip:
  "old \<noteq> [] \<Longrightarrow> \<not> prefix old (c # cs) \<Longrightarrow>
   py_replace old new (c # cs) = c # py_replace old new cs"
  by (simp add: py_replace.simps(2))

lemma py_replace_skip_hd:
  "old \<noteq> [] \<Longrightarrow> c \<noteq> hd old \<Longrightarrow> py_replace old new (c # cs) = c # py_replace old new cs"
  by (cases old) (simp_all add: py_replace.simps(2))

text \<open>Case rule: how a non-empty pattern consumes a non-empty text.\<close>
lemma py_replace_cases [consumes 1, case_names empty match skip]:
  assumes "old \<noteq> []"
  obtains (empty) "s = []"
    | (match) rest where "s = old @ rest" "py_replace old new s = new @ py_replace old new rest"
    | (skip) c cs where "s = c # cs" "\<not> prefix old s" "py_replace old new s = c # py_replace old new cs"
proof (cases s)
  case Nil then show ?thesis using empty by simp
next
  case (Cons c cs)
  show ?thesis
  proof (cases "prefix old s")
    case True
    then obtain rest where "s = old @ rest" by (auto simp: prefix_def)
    then show ?thesis using match py_replace_match[OF assms] by simp
  next
    case False
    then show ?thesis using skip Cons py_replace_skip[OF assms] by simp
  qed
qed

lemma replaced_present:
  "old \<noteq> [] \<Longrightarrow> sublist old s \<Longrightarrow> sublist new (py_replace old new s)"
proof (induction s rule: length_induct)
  case (1 s)
  from "1.prems"(1) show ?case
  proof (cases rule: py_replace_cases[where s=s and new=new])
    case empty
    with 1 show ?thesis by simp
  next
    case (match rest)
    then show ?thesis by simp
  next
    case (skip c cs)
    with "1.prems" have "sublist old cs" by (simp add: sublist_Cons_right)
    with 1 skip have "sublist new (py_replace old new cs)" by simp
    then show ?thesis using skip by (simp add: sublist_Cons_right)
  qed
qed

lemma prefix_of_replaced:
  "old \<noteq> [] \<Longrightarrow> new \<noteq> [] \<Longrightarrow> hd new \<notin> set u \<Longrightarrow>
   prefix u (py_replace old new s) \<Longrightarrow> prefix u s"
proof (induction s arbitrary: u rule: length_induct)
  case (1 s)
  from "1.prems"(1) show ?case
  proof (cases rule: py_replace_cases[where s=s and new=new])
    case empty
    with 1 show ?thesis by simp
  next
    case (match rest)
    with "1.prems" have "prefix u (new @ py_replace old new rest)" by simp
    with "1.prems"(2,3) have "u = []"
      by (cases u; cases new) (auto)
    then show ?thesis by simp
  next
    case (skip c cs)
    show ?thesis
    proof (cases u)
      case Nil then show ?thesis by simp
    next
      case (Cons a u')
      with skip "1.prems" have "a = c" "prefix u' (py_replace old new cs)" by auto
      moreover have "hd new \<notin> set u'" using Cons "1.prems" by simp
      ultimately have "prefix u' cs" using 1 skip by simp
      then show ?thesis using Cons skip \<open>a = c\<close> by simp
    qed
  qed
qed

lemma replaced_absent:
  assumes old: "old \<noteq> []" and new: "new \<noteq> []"
    and nsub: "\<not> sublist old new"
    and hdn: "hd new \<notin> set (tl old)"
    and lastn: "last new \<notin> set (butlast old)"
  shows "\<not> sublist old (py_replace old new s)"
proof (induction s rule: length_induct)
  case (1 s)
  from old show ?case
  proof (cases rule: py_replace_cases[where s=s and new=new])
    case empty
    with old show ?thesis by simp
  next
    case (match rest)
    have IH: "\<not> sublist old (py_replace old new rest)" using 1 match old by simp
    have "\<not> sublist old (new @ py_replace old new rest)"
    proof
      assume "sublist old (new @ py_replace old new rest)"
      then obtain a b where ab: "old = a @ b" "suffix a new" "prefix b (py_replace old new rest)"
        using nsub IH by (auto simp: sublist_append)
      have "a \<noteq> []" using ab IH by auto
      have "b \<noteq> []" using ab nsub by auto
      have "last a = last new" using ab(2) \<open>a \<noteq> []\<close> by (auto simp: suffix_def)
      moreover have "last a \<in> set (butlast old)"
        using ab(1) \<open>a \<noteq> []\<close> \<open>b \<noteq> []\<close> by (simp add: butlast_append)
      ultimately show False using lastn by simp
    qed
    then show ?thesis using match by simp
  next
    case (skip c cs)
    have IH: "\<not> sublist old (py_replace old new cs)" using 1 skip by simp
    have "\<not> prefix old (c # py_replace old new cs)"
    proof
      assume p: "prefix old (c # py_replace old new cs)"
      with old have "hd old = c" "prefix (tl old) (py_replace old new cs)"
        by (cases old; auto)+
      with prefix_of_replaced[OF old new hdn] have "prefix (tl old) cs" by simp
      with \<open>hd old = c\<close> old have "prefix old (c # cs)" by (cases old) auto
      with skip show False by simp
    qed
    then show ?thesis using IH skip by (simp add: sublist_Cons_right)
  qed
qed

lemma sublist_around:
  assumes "sublist w (a @ n @ b)" "n \<noteq> []" "set n \<inter> set w = {}"
  shows "sublist w a \<or> sublist w b"
proof (cases "w = []")
  case True then show ?thesis by simp
next
  case False
  from assms(1) consider "sublist w a" | "sublist w (n @ b)"
    | x1 x2 where "w = x1 @ x2" "suffix x1 a" "prefix x2 (n @ b)"
    by (auto simp: sublist_append)
  then show ?thesis
  proof cases
    case 1 then show ?thesis by simp
  next
    case 2
    then consider "sublist w n" | "sublist w b"
      | x1 x2 where "w = x1 @ x2" "suffix x1 n" "prefix x2 b"
      by (auto simp: sublist_append)
    then show ?thesis
    proof cases
      case 1
      then have "set w \<subseteq> set n" by (rule set_mono_sublist)
      with assms(3) False show ?thesis by (cases w) auto
    next
      case 2 then show ?thesis by simp
    next
      case (3 x1 x2)
      show ?thesis
      proof (cases "x1 = []")
        case True with 3 show ?thesis by auto
      next
        case False
        then have "last x1 \<in> set n" using 3(2) by (auto simp: suffix_def)
        moreover have "last x1 \<in> set w" using 3(1) False by simp
        ultimately show ?thesis using assms(3) by auto
      qed
    qed
  next
    case (3 x1 x2)
    show ?thesis
    proof (cases "x2 = []")
      case True with 3 show ?thesis by auto
    next
      case False
      then have "hd x2 = hd n" using 3(3) assms(2) by (cases x2; cases n) auto
      then have "hd x2 \<in> set n" using assms(2) by simp
      moreover have "hd x2 \<in> set w" using 3(1) False by simp
      ultimately show ?thesis using assms(3) by auto
    qed
  qed
qed

lemma absent_preserved_aux:
  assumes old: "old \<noteq> []" and new: "new \<noteq> []" and dis: "set new \<inter> set w = {}"
  shows "\<not> sublist w (pre @ s) \<Longrightarrow> \<not> sublist w (pre @ py_replace old new s)"
proof (induction s arbitrary: pre rule: length_induct)
  case (1 s)
  from old show ?case
  proof (cases rule: py_replace_cases[where s=s and new=new])
    case empty
    with 1 old show ?thesis by simp
  next
    case (match rest)
    have "\<not> sublist w pre" using "1.prems" by (auto simp: sublist_append)
    moreover have "\<not> sublist w rest"
      using "1.prems" match(1) by (auto simp: sublist_append)
    then have "\<not> sublist w ([] @ py_replace old new rest)"
      using "1.IH" match(1) old by (metis append_Nil length_append length_greater_0_conv less_add_same_cancel2)
    ultimately have "\<not> sublist w (pre @ new @ py_replace old new rest)"
      using sublist_around[OF _ new dis] by auto
    then show ?thesis using match by simp
  next
    case (skip c cs)
    have "\<not> sublist w ((pre @ [c]) @ cs)" using "1.prems" skip by simp
    moreover have "length cs < length s" using skip by simp
    ultimately have "\<not> sublist w ((pre @ [c]) @ py_replace old new cs)"
      using "1.IH" by blast
    then show ?thesis using skip by simp
  qed
qed

lemma absent_preserved:
  "old \<noteq> [] \<Longrightarrow> new \<noteq> [] \<Longrightarrow> set new \<inter> set w = {} \<Longrightarrow>
   \<not> sublist w s \<Longrightarrow> \<not> sublist w (py_replace old new s)"
  using absent_preserved_aux[of old new w "[]" s] by simp

lemma present_preserved:
  assumes old: "old \<noteq> []"
    and nsub: "\<not> sublist w old"
    and lasto: "last old \<notin> set (butlast w)"
    and pass: "\<And>rest. py_replace old new (w @ rest) = w @ py_replace old new rest"
  shows "sublist w s \<Longrightarrow> sublist w (py_replace old new s)"
proof (induction s rule: length_induct)
  case (1 s)
  from old show ?case
  proof (cases rule: py_replace_cases[where s=s and new=new])
    case empty
    with 1 show ?thesis by simp
  next
    case (match rest)
    have "sublist w rest"
    proof -
      from "1.prems" match(1) consider "sublist w rest"
        | a b where "w = a @ b" "suffix a old" "prefix b rest"
        using nsub by (auto simp: sublist_append)
      then show ?thesis
      proof cases
        case 1 then show ?thesis .
      next
        case (2 a b)
        show ?thesis
        proof (cases "a = [] \<or> b = []")
          case True
          with 2 nsub show ?thesis by auto
        next
          case False
          then have "last a = last old" using 2(2) by (auto simp: suffix_def)
          moreover have "last a \<in> set (butlast w)" using 2(1) False by (simp add: butlast_append)
          ultimately show ?thesis using lasto by simp
        qed
      qed
    qed
    then have "sublist w (py_replace old new rest)" using "1.IH" match(1) old by simp
    then show ?thesis using match by (auto simp: sublist_append)
  next
    case (skip c cs)
    from "1.prems" skip(1) consider "prefix w s" | "sublist w cs"
      by (auto simp: sublist_Cons_right)
    then show ?thesis
    proof cases
      case 1
      then obtain rest where "s = w @ rest" by (auto simp: prefix_def)
      then show ?thesis using pass by simp
    next
      case 2
      then have "sublist w (py_replace old new cs)" using "1.IH" skip by simp
      then show ?thesis using skip by (simp add: sublist_Cons_right)
    qed
  qed
qed

subsection \<open>Bytes, escapes and the XOR round trip\<close>

lemma of_char_int_range: "0 \<le> (of_char ch :: int) \<and> (of_char ch :: int) < 256"
proof -
  have "0 \<le> (of_char ch :: int) mod 256 \<and> (of_char ch :: int) mod 256 < 256"
    by (intro conjI pos_mod_sign pos_mod_bound) simp_all
  then show ?thesis by (simp only: of_char_mod_256)
qed

lemma digit_char_hexval: "0 \<le> d \<Longrightarrow> d < 16 \<Longrightarrow> hexval (digit_char d) = Some d"
proof -
  assume "0 \<le> d" "d < 16"
  then have "d = 0 \<or> d = 1 \<or> d = 2 \<or> d = 3 \<or> d = 4 \<or> d = 5 \<or> d = 6 \<or> d = 7 \<or> d = 8
      \<or> d = 9 \<or> d = 10 \<or> d = 11 \<or> d = 12 \<or> d = 13 \<or> d = 14 \<or> d = 15" by arith
  then show ?thesis
    by (elim disjE) (simp_all add: digit_char_def hexval_def)
qed

lemma format_02x_byte:
  assumes "0 \<le> b" "b < 256"
  shows "format_02x b = [digit_char (b div 16), digit_char (b mod 16)]"
proof (cases "b < 16")
  case True
  then show ?thesis using assms
    by (simp add: format_02x_def radix_digits.simps[of 16 b] digit_char_def)
next
  case False
  then have "b div 16 < 16" using assms by simp
  then show ?thesis using False
    by (simp add: format_02x_def radix_digits.simps[of 16 b] radix_digits.simps[of 16 "b div 16"])
qed

lemma xor_byte_range:
  assumes "1 \<le> key" "key \<le> 255"
  shows "0 \<le> of_char ch XOR key \<and> of_char ch XOR key < (256::int)"
proof -
  have "(of_char ch :: int) < 2 ^ 8" "key < 2 ^ 8" "0 \<le> (of_char ch :: int)"
    using of_char_int_range[of ch] assms by simp_all
  then have "of_char ch XOR key < 2 ^ 8" by (intro XOR_upper)
  moreover have "0 \<le> of_char ch XOR key" using assms of_char_int_range[of ch] by simp
  ultimately show ?thesis by simp
qed

lemma randint_range:
  "a \<le> b \<Longrightarrow> randint rnd a b c = (r, c') \<Longrightarrow> a \<le> r \<and> r \<le> b"
proof -
  assume "a \<le> b" "randint rnd a b c = (r, c')"
  then have r: "r = a + int (rnd c) mod (b - a + 1)" by (simp add: randint_def)
  have "0 < b - a + 1" using \<open>a \<le> b\<close> by simp
  then have "0 \<le> int (rnd c) mod (b - a + 1)" "int (rnd c) mod (b - a + 1) < b - a + 1"
    by (rule pos_mod_sign, rule pos_mod_bound)
  with r show ?thesis by linarith
qed

lemma unescape_escape:
  "\<forall>b\<in>set bs. 0 \<le> b \<and> b < 256 \<Longrightarrow>
   unescape (concat (map (\<lambda>b. [CHR 0x5C, CHR ''x''] @ format_02x b) bs)) = Some bs"
proof (induction bs)
  case Nil
  then show ?case by simp
next
  case (Cons b bs)
  then have b: "0 \<le> b" "b < 256" by simp_all
  then have "0 \<le> b div 16" "b div 16 < 16" "0 \<le> b mod 16" "b mod 16 < 16" by simp_all
  then show ?case using Cons b
    by (simp add: format_02x_byte digit_char_hexval)
qed

lemma xor_decode_encode:
  assumes "xor_encode_bytes rnd s c = ((esc, key), c')"
  shows "1 \<le> key \<and> key \<le> 255 \<and> xor_decode esc key = Some s"
proof -
  obtain k c1 where k: "randint rnd 1 255 c = (k, c1)" by force
  then have kr: "1 \<le> k" "k \<le> 255" using randint_range[of 1 255 rnd c k c1] by simp_all
  have "xor_encode_bytes rnd s c =
          ((concat (map (\<lambda>b. [CHR 0x5C, CHR ''x''] @ format_02x b)
                  (map (\<lambda>b. b XOR k) (encode_utf8 s))), k), c1)"
    using k by (simp add: xor_encode_bytes_def Let_def)
  with assms have key: "key = k"
    and esc: "esc = concat (map (\<lambda>b. [CHR 0x5C, CHR ''x''] @ format_02x b)
                  (map (\<lambda>b. b XOR k) (encode_utf8 s)))"
    by auto
  have "\<forall>b\<in>set (map (\<lambda>b. b XOR k) (encode_utf8 s)). 0 \<le> b \<and> b < 256"
    using xor_byte_range[OF kr] by (auto simp: encode_utf8_def)
  then have "unescape esc = Some (map (\<lambda>b. b XOR k) (encode_utf8 s))"
    unfolding esc by (rule unescape_escape)
  then have "xor_decode esc key = Some (map (\<lambda>ch. char_of ((of_char ch XOR k) XOR k :: int)) s)"
    by (simp add: xor_decode_def key encode_utf8_def comp_def)
  also have "(map (\<lambda>ch. char_of ((of_char ch XOR k) XOR k :: int)) s) = s"
    by (simp add: xor.assoc map_idI)
  finally show ?thesis using kr key by simp
qed

subsection \<open>Characters of the substituted texts, shape of the flag\<close>

lemma digit_char_in: "0 \<le> d \<Longrightarrow> d < 16 \<Longrightarrow> digit_char d \<in> hex_chars"
proof -
  assume "0 \<le> d" "d < 16"
  then have "nat d < length ''0123456789abcdef''" by simp
  then show ?thesis unfolding digit_char_def hex_chars_def by (rule nth_mem)
qed

lemma radix_digits_chars:
  "2 \<le> b \<Longrightarrow> b \<le> 16 \<Longrightarrow> 0 \<le> n \<Longrightarrow>
   radix_digits b n \<noteq> [] \<and> set (radix_digits b n) \<subseteq> hex_chars"
proof (induction b n rule: radix_digits.induct)
  case (1 b n)
  show ?case
  proof (cases "n < b")
    case True
    then have "radix_digits b n = [digit_char n]" by (simp add: radix_digits.simps[of b n])
    moreover have "digit_char n \<in> hex_chars"
      using True 1(2-4) by (intro digit_char_in) simp_all
    ultimately show ?thesis by simp
  next
    case False
    then have eq: "radix_digits b n = radix_digits b (n div b) @ [digit_char (n mod b)]"
      using 1(2) by (simp add: radix_digits.simps[of b n])
    have "0 \<le> n div b" using 1(2,4) by (simp add: pos_imp_zdiv_nonneg_iff)
    then have IH: "set (radix_digits b (n div b)) \<subseteq> hex_chars"
      using 1 False by simp
    have "0 \<le> n mod b" "n mod b < b" using 1(2) by simp_all
    then have "digit_char (n mod b) \<in> hex_chars"
      using 1(3) by (intro digit_char_in) simp_all
    then show ?thesis using IH eq by simp
  qed
qed

lemma str_int_chars:
  "0 \<le> n \<Longrightarrow> str_int n \<noteq> [] \<and> set (str_int n) \<subseteq> hex_chars"
  using radix_digits_chars[of 10 n] by (simp add: str_int_def)

lemma escape_chars:
  assumes "\<forall>b\<in>set bs. 0 \<le> b \<and> b < 256"
  shows "set (concat (map (\<lambda>b. [CHR 0x5C, CHR ''x''] @ format_02x b) bs))
         \<subseteq> insert (CHR 0x5C) (insert (CHR ''x'') (hex_chars))"
proof -
  have "set (format_02x b) \<subseteq> hex_chars" if "b \<in> set bs" for b
  proof -
    from that assms have b: "0 \<le> b" "b < 256" by auto
    then have "0 \<le> b div 16" "b div 16 < 16" "0 \<le> b mod 16" "b mod 16 < 16" by simp_all
    then show ?thesis using digit_char_in[of "b div 16"] digit_char_in[of "b mod 16"]
      by (simp only: format_02x_byte[OF b]) simp
  qed
  then show ?thesis by auto
qed

lemma xor_encode_chars:
  assumes "xor_encode_bytes rnd s c = ((esc, key), c')"
  shows "set esc \<subseteq> insert (CHR 0x5C) (insert (CHR ''x'') (hex_chars))"
    and "s \<noteq> [] \<Longrightarrow> esc \<noteq> []"
proof -
  obtain k c1 where k: "randint rnd 1 255 c = (k, c1)" by force
  then have kr: "1 \<le> k" "k \<le> 255" using randint_range[of 1 255 rnd c k c1] by simp_all
  have "xor_encode_bytes rnd s c =
          ((concat (map (\<lambda>b. [CHR 0x5C, CHR ''x''] @ format_02x b)
                  (map (\<lambda>b. b XOR k) (encode_utf8 s))), k), c1)"
    using k by (simp add: xor_encode_bytes_def Let_def)
  with assms have esc: "esc = concat (map (\<lambda>b. [CHR 0x5C, CHR ''x''] @ format_02x b)
                  (map (\<lambda>b. b XOR k) (encode_utf8 s)))"
    by auto
  have "\<forall>b\<in>set (map (\<lambda>b. b XOR k) (encode_utf8 s)). 0 \<le> b \<and> b < 256"
    using xor_byte_range[OF kr] by (auto simp: encode_utf8_def)
  then show "set esc \<subseteq> insert (CHR 0x5C) (insert (CHR ''x'') (hex_chars))"
    unfolding esc by (rule escape_chars)
  show "s \<noteq> [] \<Longrightarrow> esc \<noteq> []"
    unfolding esc by (cases s) (simp_all add: encode_utf8_def)
qed

lemma flag_token_decomp:
  assumes "flag_token f"
  obtains body where "f = ''flag{'' @ body @ ''}''" "length body = 12" "list_all lower_or_digit body"
proof -
  let ?body = "take 12 (drop 5 f)"
  have "drop 5 f = take 12 (drop 5 f) @ drop 12 (drop 5 f)" by (simp only: append_take_drop_id)
  then have "drop 5 f = take 12 (drop 5 f) @ drop 17 f" by simp
  then have "take 5 f @ drop 5 f = take 5 f @ take 12 (drop 5 f) @ drop 17 f" by simp
  then have "f = take 5 f @ take 12 (drop 5 f) @ drop 17 f" by (simp only: append_take_drop_id)
  then have "f = ''flag{'' @ ?body @ ''}''" using assms by (simp add: flag_token_def)
  moreover have "length ?body = 12" using assms by (simp add: flag_token_def)
  moreover have "list_all lower_or_digit ?body" using assms by (simp add: flag_token_def)
  ultimately show ?thesis using that by blast
qed

lemma alphabet_lower_or_digit: "list_all lower_or_digit (ascii_lowercase @ digits)"
  by (simp add: ascii_lowercase_def digits_def lower_or_digit_def)

lemma choices_members:
  "population \<noteq> [] \<Longrightarrow> list_all P population \<Longrightarrow> list_all P (fst (choices rnd population k c))"
  by (simp add: choices_def list_all_iff)

lemma choices_length: "length (fst (choices rnd population k c)) = k"
  by (simp add: choices_def)

lemma gen_flag_token: "gen_flag rnd c = (flag, c') \<Longrightarrow> flag_token flag"
proof -
  assume a: "gen_flag rnd c = (flag, c')"
  define body where "body = fst (choices rnd (ascii_lowercase @ digits) 12 c)"
  have flag: "flag = ''flag{'' @ body @ ''}''"
    using a by (auto simp: gen_flag_def body_def split: prod.splits)
  have len: "length body = 12" unfolding body_def by (rule choices_length)
  have "ascii_lowercase @ digits \<noteq> []" by (simp add: ascii_lowercase_def)
  then have "list_all lower_or_digit body"
    unfolding body_def using alphabet_lower_or_digit by (rule choices_members)
  then show ?thesis using len by (simp add: flag flag_token_def)
qed

subsection \<open>Tokens that pass through a replacement\<close>

lemma lower_or_digit_not_brace: "lower_or_digit ch \<Longrightarrow> ch \<noteq> CHR ''{''"
  by (auto simp: lower_or_digit_def)

lemma pass_body:
  "old \<noteq> [] \<Longrightarrow> hd old = CHR ''{'' \<Longrightarrow> list_all lower_or_digit body \<Longrightarrow>
   py_replace old new (body @ rest) = body @ py_replace old new rest"
proof (induction body)
  case Nil
  then show ?case by simp
next
  case (Cons ch body)
  then have "ch \<noteq> hd old" using lower_or_digit_not_brace[of ch] by auto
  then show ?case using Cons by (simp add: py_replace_skip_hd)
qed

lemma pass_flag_token:
  assumes old: "old = CHR ''{'' # u # os" and u: "\<not> lower_or_digit u" and tok: "flag_token f"
  shows "py_replace old new (f @ rest) = f @ py_replace old new rest"
proof -
  from tok obtain body where f: "f = ''flag{'' @ body @ ''}''" and len: "length body = 12"
    and body: "list_all lower_or_digit body" by (rule flag_token_decomp)
  from len obtain b bs where bs: "body = b # bs" by (cases body) auto
  with body u have "b \<noteq> u" by auto
  then have brace: "\<not> prefix old (CHR ''{'' # body @ ''}'' @ rest)"
    by (simp add: old bs)
  have o: "old \<noteq> []" "hd old = CHR ''{''" by (simp_all add: old)
  have "py_replace old new (f @ rest)
      = ''flag'' @ py_replace old new (CHR ''{'' # body @ ''}'' @ rest)"
    by (simp add: f py_replace_skip_hd o)
  also have "py_replace old new (CHR ''{'' # body @ ''}'' @ rest)
      = CHR ''{'' # py_replace old new (body @ ''}'' @ rest)"
    using brace by (simp add: py_replace_skip o)
  also have "py_replace old new (body @ ''}'' @ rest) = body @ py_replace old new (''}'' @ rest)"
    by (rule pass_body[OF o body])
  also have "py_replace old new (''}'' @ rest) = ''}'' @ py_replace old new rest"
    by (simp add: py_replace_skip_hd o)
  finally show ?thesis by (simp add: f)
qed

lemma flag_token_survives:
  assumes old: "old = CHR ''{'' # u # os" and u: "\<not> lower_or_digit u"
    and last: "last old = CHR ''}''" and short: "length old < 18"
    and tok: "flag_token f" and sub: "sublist f s"
  shows "sublist f (py_replace old new s)"
proof (rule present_preserved[OF _ _ _ _ sub])
  show "old \<noteq> []" by (simp add: old)
  show "\<not> sublist f old"
    using sublist_length_le[of f old] tok short by (auto simp: flag_token_def)
  from tok obtain body where f: "f = ''flag{'' @ body @ ''}''"
    and body: "list_all lower_or_digit body" by (rule flag_token_decomp)
  have "CHR ''}'' \<notin> set body" using body by (auto simp: list_all_iff lower_or_digit_def)
  then show "last old \<notin> set (butlast f)" by (simp add: f last butlast_append)
  show "py_replace old new (f @ rest) = f @ py_replace old new rest" for rest
    by (rule pass_flag_token[OF old u tok])
qed

lemma flag_placeholder_absent:
  assumes tok: "flag_token f"
  shows "\<not> sublist ''{FLAG}'' (py_replace ''{FLAG}'' f s)"
proof (rule replaced_absent)
  from tok obtain body where f: "f = ''flag{'' @ body @ ''}''"
    and body: "list_all lower_or_digit body" by (rule flag_token_decomp)
  show "''{FLAG}'' \<noteq> []" by simp
  show "f \<noteq> []" by (simp add: f)
  have "CHR ''F'' \<notin> set f" using body by (auto simp: f list_all_iff lower_or_digit_def)
  then show "\<not> sublist ''{FLAG}'' f" using set_mono_sublist[of "''{FLAG}''" f] by auto
  show "hd f \<notin> set (tl ''{FLAG}'')" by (simp add: f)
  show "last f \<notin> set (butlast ''{FLAG}'')" by (simp add: f)
qed

lemma xor_placeholder_survives:
  "sublist ''{XOR_ENC}'' s \<Longrightarrow> sublist ''{XOR_ENC}'' (py_replace ''{FLAG}'' new s)"
proof (rule present_preserved)
  show "''{FLAG}'' \<noteq> []" by simp
  show "\<not> sublist ''{XOR_ENC}'' ''{FLAG}''"
    using sublist_length_le[of "''{XOR_ENC}''" "''{FLAG}''"] by auto
  show "last ''{FLAG}'' \<notin> set (butlast ''{XOR_ENC}'')" by simp
  show "py_replace ''{FLAG}'' new (''{XOR_ENC}'' @ rest) = ''{XOR_ENC}'' @ py_replace ''{FLAG}'' new rest"
    for rest by (simp add: py_replace_skip_hd py_replace_skip)
qed

lemma hex_chars_no_placeholder: "ch \<in> hex_chars \<Longrightarrow> ch \<notin> set ''{FLAG}''"
  by (auto simp: hex_chars_def)

lemma placeholder_step:
  assumes tok: "flag_token f"
    and old0: "2 \<le> length old" "hd old = CHR ''{''" "\<not> lower_or_digit (old ! 1)"
      "last old = CHR ''}''" "length old < 18"
    and new: "new \<noteq> []" "set new \<subseteq> insert (CHR 0x5C) (insert (CHR ''x'') hex_chars)"
    and inv: "sublist f p \<and> \<not> sublist ''{FLAG}'' p"
  shows "sublist f (py_replace old new p) \<and> \<not> sublist ''{FLAG}'' (py_replace old new p)"
proof
  from old0(1) obtain a u os where "old = a # u # os"
    by (cases old; cases "tl old") auto
  with old0 have old: "old = CHR ''{'' # u # os" "\<not> lower_or_digit u" "last old = CHR ''}''"
      "length old < 18" by auto
  show "sublist f (py_replace old new p)"
    using flag_token_survives[OF old tok] inv by simp
  have "set new \<inter> set ''{FLAG}'' = {}"
    using new(2) hex_chars_no_placeholder by fastforce
  moreover have "old \<noteq> []" by (simp add: old)
  ultimately show "\<not> sublist ''{FLAG}'' (py_replace old new p)"
    using absent_preserved[of old new "''{FLAG}''" p] new(1) inv by blast
qed

lemma str_int_new:
  "0 \<le> n \<Longrightarrow> str_int n \<noteq> [] \<and> set (str_int n) \<subseteq> insert (CHR 0x5C) (insert (CHR ''x'') hex_chars)"
  using str_int_chars[of n] by auto

subsection \<open>Claims about the content generator\<close>

text \<open>
  Claim C2.  When the template text contains \<^verbatim>\<open>{FLAG}\<close>, the source text produced
  by placeholder substitution with a generated flag contains that flag, which has the
  exact form \<^verbatim>\<open>flag{\<close> + 12 lowercase letters or digits + \<^verbatim>\<open>}\<close>, and no longer
  contains the literal \<^verbatim>\<open>{FLAG}\<close>.
\<close>

theorem flag_substituted:
  assumes tpl: "str_in ''{FLAG}'' template_text"
    and gen: "gen_flag rnd c = (flag, c1)"
    and prep: "prepare_program_from_template rnd template_text flag c1 = (program, c2)"
  shows "flag_token flag \<and> str_in flag program \<and> \<not> str_in ''{FLAG}'' program"
proof -
  have tok: "flag_token flag" using gen by (rule gen_flag_token)
  then have ne: "flag \<noteq> []" by (auto simp: flag_token_def)
  define p1 where "p1 = py_replace ''{FLAG}'' flag template_text"
  have inv1: "sublist flag p1 \<and> \<not> sublist ''{FLAG}'' p1"
    unfolding p1_def using replaced_present[of "''{FLAG}''" template_text flag] tpl
      flag_placeholder_absent[OF tok] by (simp add: str_in_sublist)
  obtain enc key cx where xe: "xor_encode_bytes rnd flag c1 = ((enc, key), cx)"
    by (metis prod.exhaust)
  have key: "1 \<le> key" using xor_decode_encode[OF xe] by simp
  have enc: "enc \<noteq> []" "set enc \<subseteq> insert (CHR 0x5C) (insert (CHR ''x'') hex_chars)"
    using xor_encode_chars[OF xe] ne by simp_all
  define p2 where "p2 = (if str_in ''{XOR_ENC}'' p1
      then py_replace ''{KEY}'' (str_int key) (py_replace ''{XOR_ENC}'' enc p1) else p1)"
  define c' where "c' = (if str_in ''{XOR_ENC}'' p1 then cx else c1)"
  have inv2: "sublist flag p2 \<and> \<not> sublist ''{FLAG}'' p2"
  proof (cases "str_in ''{XOR_ENC}'' p1")
    case False
    then show ?thesis using inv1 by (simp add: p2_def)
  next
    case True
    have x1: "sublist flag (py_replace ''{XOR_ENC}'' enc p1)
        \<and> \<not> sublist ''{FLAG}'' (py_replace ''{XOR_ENC}'' enc p1)"
      by (rule placeholder_step[OF tok _ _ _ _ _ enc inv1]) (simp_all add: lower_or_digit_def)
    have "0 \<le> key" using key by simp
    note sk = str_int_new[OF this]
    have "sublist flag (py_replace ''{KEY}'' (str_int key) (py_replace ''{XOR_ENC}'' enc p1))
        \<and> \<not> sublist ''{FLAG}'' (py_replace ''{KEY}'' (str_int key) (py_replace ''{XOR_ENC}'' enc p1))"
      by (rule placeholder_step[OF tok _ _ _ _ _ conjunct1[OF sk] conjunct2[OF sk] x1])
         (simp_all add: lower_or_digit_def)
    then show ?thesis using True by (simp add: p2_def)
  qed
  obtain ri cy where ri: "randint rnd 1 10000 c' = (ri, cy)" by force
  then have rir: "1 \<le> ri" using randint_range[of 1 10000 rnd c' ri cy] by simp
  have prog: "program = (if str_in ''{RANDOM_INT}'' p2
        then py_replace ''{RANDOM_INT}'' (str_int ri) p2 else p2)"
    using prep xe ri
    by (auto simp: prepare_program_from_template_def Let_def p1_def p2_def c'_def split: if_splits)
  have "sublist flag program \<and> \<not> sublist ''{FLAG}'' program"
  proof (cases "str_in ''{RANDOM_INT}'' p2")
    case False
    then show ?thesis using inv2 prog by simp
  next
    case True
    have "0 \<le> ri" using rir by simp
    note sr = str_int_new[OF this]
    have "sublist flag (py_replace ''{RANDOM_INT}'' (str_int ri) p2)
        \<and> \<not> sublist ''{FLAG}'' (py_replace ''{RANDOM_INT}'' (str_int ri) p2)"
      by (rule placeholder_step[OF tok _ _ _ _ _ conjunct1[OF sr] conjunct2[OF sr] inv2])
         (simp_all add: lower_or_digit_def)
    then show ?thesis using True prog by simp
  qed
  then show ?thesis using tok by (simp add: str_in_sublist)
qed

theorem flag_substituted_witness:
  "str_in ''{FLAG}'' ''x={FLAG};''
   \<and> gen_flag (\<lambda>n. n) 0 = (''flag{abcdefghijkl}'', 12)
   \<and> prepare_program_from_template (\<lambda>n. n) ''x={FLAG};'' ''flag{abcdefghijkl}'' 12
       = (''x=flag{abcdefghijkl};'', 12)
   \<and> flag_token ''flag{abcdefghijkl}''
   \<and> str_in ''flag{abcdefghijkl}'' ''x=flag{abcdefghijkl};''
   \<and> \<not> str_in ''{FLAG}'' ''x=flag{abcdefghijkl};''"
proof -
  have h1: "str_in ''{FLAG}'' ''x={FLAG};''" by simp
  have h2: "gen_flag (\<lambda>n. n) 0 = (''flag{abcdefghijkl}'', 12)" by code_simp
  have h3: "prepare_program_from_template (\<lambda>n. n) ''x={FLAG};'' ''flag{abcdefghijkl}'' 12
       = (''x=flag{abcdefghijkl};'', 12)" by code_simp
  from flag_substituted[OF h1 h2 h3] h1 h2 h3 show ?thesis by blast
qed

text \<open>
  Claim C1.  When the template text contains \<^verbatim>\<open>{XOR_ENC}\<close>, the generation draws a
  key in \<open>[1, 255]\<close>; the text put in place of \<^verbatim>\<open>{XOR_ENC}\<close> is, for every byte of
  the flag, a backslash, \<^verbatim>\<open>x\<close> and the two hexadecimal digits of that byte XORed with
  the key; the decimal key is put in place of \<^verbatim>\<open>{KEY}\<close>; and reading the escapes back,
  XORing with the key and reading the bytes as text gives exactly the flag that replaced
  \<^verbatim>\<open>{FLAG}\<close>.
\<close>

theorem xor_enc_roundtrip:
  assumes tpl: "str_in ''{XOR_ENC}'' template_text"
  shows "\<exists>enc key c1.
      xor_encode_bytes rnd flag c = ((enc, key), c1)
    \<and> 1 \<le> key \<and> key \<le> 255
    \<and> enc = concat (map (\<lambda>b. [CHR 0x5C, CHR ''x'',
                 digit_char ((b XOR key) div 16), digit_char ((b XOR key) mod 16)])
               (encode_utf8 flag))
    \<and> xor_decode enc key = Some flag
    \<and> prepare_program_from_template rnd template_text flag c =
        (let program = py_replace ''{KEY}'' (str_int key)
                (py_replace ''{XOR_ENC}'' enc (py_replace ''{FLAG}'' flag template_text))
         in if str_in ''{RANDOM_INT}'' program
            then (py_replace ''{RANDOM_INT}'' (str_int (fst (randint rnd 1 10000 c1))) program,
                  snd (randint rnd 1 10000 c1))
            else (program, c1))"
proof -
  obtain enc key c1 where xe: "xor_encode_bytes rnd flag c = ((enc, key), c1)"
    by (metis prod.exhaust)
  have dec: "1 \<le> key" "key \<le> 255" "xor_decode enc key = Some flag"
    using xor_decode_encode[OF xe] by simp_all
  obtain k cx where k: "randint rnd 1 255 c = (k, cx)" by force
  have "xor_encode_bytes rnd flag c =
          ((concat (map (\<lambda>b. [CHR 0x5C, CHR ''x''] @ format_02x b)
                  (map (\<lambda>b. b XOR k) (encode_utf8 flag))), k), cx)"
    using k by (simp add: xor_encode_bytes_def Let_def)
  with xe have kk: "k = key"
    and esc: "enc = concat (map (\<lambda>b. [CHR 0x5C, CHR ''x''] @ format_02x b)
                  (map (\<lambda>b. b XOR key) (encode_utf8 flag)))"
    by auto
  have "[CHR 0x5C, CHR ''x''] @ format_02x (b XOR key)
      = [CHR 0x5C, CHR ''x'', digit_char ((b XOR key) div 16), digit_char ((b XOR key) mod 16)]"
    if "b \<in> set (encode_utf8 flag)" for b
  proof -
    from that obtain ch where "b = of_char ch" by (auto simp: encode_utf8_def)
    then have "0 \<le> b XOR key" "b XOR key < 256" using xor_byte_range[OF dec(1,2), of ch] by simp_all
    then show ?thesis by (simp add: format_02x_byte)
  qed
  then have shape: "enc = concat (map (\<lambda>b. [CHR 0x5C, CHR ''x'',
                 digit_char ((b XOR key) div 16), digit_char ((b XOR key) mod 16)])
               (encode_utf8 flag))"
    unfolding esc map_map comp_def by (intro arg_cong[where f=concat] map_cong) simp_all
  have "str_in ''{XOR_ENC}'' (py_replace ''{FLAG}'' flag template_text)"
    using tpl xor_placeholder_survives by (simp add: str_in_sublist)
  then have "prepare_program_from_template rnd template_text flag c =
        (let program = py_replace ''{KEY}'' (str_int key)
                (py_replace ''{XOR_ENC}'' enc (py_replace ''{FLAG}'' flag template_text))
         in if str_in ''{RANDOM_INT}'' program
            then (py_replace ''{RANDOM_INT}'' (str_int (fst (randint rnd 1 10000 c1))) program,
                  snd (randint rnd 1 10000 c1))
            else (program, c1))"
    using xe by (simp add: prepare_program_from_template_def Let_def split: prod.splits)
  then show ?thesis using xe dec shape by blast
qed

theorem xor_enc_roundtrip_witness:
  "str_in ''{XOR_ENC}'' ''e={XOR_ENC};k={KEY};''
   \<and> xor_encode_bytes (\<lambda>n. n) ''flag{abcdefghijkl}'' 12
       = ((CHR 0x5C # ''x6b'' @ CHR 0x5C # ''x61'' @ CHR 0x5C # ''x6c'' @ CHR 0x5C # ''x6a''
           @ CHR 0x5C # ''x76'' @ CHR 0x5C # ''x6c'' @ CHR 0x5C # ''x6f'' @ CHR 0x5C # ''x6e''
           @ CHR 0x5C # ''x69'' @ CHR 0x5C # ''x68'' @ CHR 0x5C # ''x6b'' @ CHR 0x5C # ''x6a''
           @ CHR 0x5C # ''x65'' @ CHR 0x5C # ''x64'' @ CHR 0x5C # ''x67'' @ CHR 0x5C # ''x66''
           @ CHR 0x5C # ''x61'' @ CHR 0x5C # ''x70'', 13), 13)
   \<and> (\<exists>enc key c1.
        xor_encode_bytes (\<lambda>n. n) ''flag{abcdefghijkl}'' 12 = ((enc, key), c1)
      \<and> 1 \<le> key \<and> key \<le> 255
      \<and> xor_decode enc key = Some ''flag{abcdefghijkl}'')"
proof -
  have h1: "str_in ''{XOR_ENC}'' ''e={XOR_ENC};k={KEY};''" by simp
  have h2: "xor_encode_bytes (\<lambda>n. n) ''flag{abcdefghijkl}'' 12
       = ((CHR 0x5C # ''x6b'' @ CHR 0x5C # ''x61'' @ CHR 0x5C # ''x6c'' @ CHR 0x5C # ''x6a''
           @ CHR 0x5C # ''x76'' @ CHR 0x5C # ''x6c'' @ CHR 0x5C # ''x6f'' @ CHR 0x5C # ''x6e''
           @ CHR 0x5C # ''x69'' @ CHR 0x5C # ''x68'' @ CHR 0x5C # ''x6b'' @ CHR 0x5C # ''x6a''
           @ CHR 0x5C # ''x65'' @ CHR 0x5C # ''x64'' @ CHR 0x5C # ''x67'' @ CHR 0x5C # ''x66''
           @ CHR 0x5C # ''x61'' @ CHR 0x5C # ''x70'', 13), 13)" by code_simp
  from xor_enc_roundtrip[OF h1, of "\<lambda>n. n" "''flag{abcdefghijkl}''" 12] h1 h2
  show ?thesis by blast
qed

section \<open>Properties of the file system operations\<close>

subsection \<open>Well-formed file systems\<close>

lemma wf_ancestor:
  "wf_fs fs \<Longrightarrow> fs p \<noteq> None \<Longrightarrow> prefix q p \<Longrightarrow> q \<noteq> p \<Longrightarrow> fs q = Some Dir"
proof (induction p rule: rev_induct)
  case Nil
  then show ?case by simp
next
  case (snoc x p)
  from snoc.prems(1,2) have par: "fs p = Some Dir"
    unfolding wf_fs_def by (metis butlast_snoc snoc_eq_iff_butlast)
  from snoc.prems(3,4) have "prefix q p" by (auto simp: prefix_snoc)
  show ?case
  proof (cases "q = p")
    case True
    with par show ?thesis by simp
  next
    case False
    with snoc.IH[OF snoc.prems(1) _ \<open>prefix q p\<close>] par show ?thesis by simp
  qed
qed

lemma wf_nothing_below:
  "wf_fs fs \<Longrightarrow> fs t \<noteq> Some Dir \<Longrightarrow> prefix t q \<Longrightarrow> q \<noteq> t \<Longrightarrow> fs q = None"
  using wf_ancestor[of fs q t] by (cases "fs q") auto

lemma wf_mkdir_parents:
  assumes "wf_fs fs" "mkdir_parents p fs = Inr fs'"
  shows "wf_fs fs'"
proof -
  from assms(2) have fs': "fs' = (\<lambda>q. if prefix q p then Some Dir else fs q)"
    by (auto simp: mkdir_parents_def split: if_splits)
  show ?thesis
    unfolding wf_fs_def
  proof (intro allI impI)
    fix q :: path
    assume q: "q \<noteq> []" "fs' q \<noteq> None"
    show "fs' (butlast q) = Some Dir"
    proof (cases "prefix q p")
      case True
      then have "prefix (butlast q) p" using prefix_order.trans[OF prefixeq_butlast] by blast
      then show ?thesis by (simp add: fs')
    next
      case False
      with q have "fs q \<noteq> None" by (simp add: fs')
      with assms(1) q(1) have "fs (butlast q) = Some Dir" by (simp add: wf_fs_def)
      then show ?thesis by (simp add: fs')
    qed
  qed
qed

lemma mkdir_parents_result:
  "mkdir_parents p fs = Inr fs' \<Longrightarrow> fs' = (\<lambda>q. if prefix q p then Some Dir else fs q)"
  by (auto simp: mkdir_parents_def split: if_splits)

lemma mkdir_parents_keeps_files:
  assumes "mkdir_parents p fs = Inr fs'" "\<not> prefix q p"
  shows "fs' q = fs q"
  using assms(2) mkdir_parents_result[OF assms(1)] by simp

subsection \<open>The temporary directory\<close>

lemma mkdtemp_loop_fresh:
  "mkdtemp_loop r dir pre n w = (Inr tmp, w1) \<Longrightarrow>
   files w tmp = None \<and> files w1 = (files w)(tmp \<mapsto> Dir) \<and> is_dir (files w) dir
   \<and> stdout w1 = stdout w \<and> (\<exists>name. tmp = dir @ [pre @ name])"
proof (induction n arbitrary: w)
  case 0
  then show ?case by simp
next
  case (Suc n)
  obtain name c where nc: "choices r tmp_characters 8 (cursor w) = (name, c)" by force
  show ?case
  proof (cases "path_exists (files w) (dir @ [pre @ name])")
    case True
    with Suc.prems nc have "mkdtemp_loop r dir pre n (w\<lparr>cursor := c\<rparr>) = (Inr tmp, w1)"
      by (simp add: Let_def)
    from Suc.IH[OF this] show ?thesis by simp
  next
    case False
    with Suc.prems nc show ?thesis
      by (auto simp: Let_def path_exists_def split: if_splits)
  qed
qed

lemma mkdtemp_fresh:
  "mkdtemp E pre w = (Inr tmp, w1) \<Longrightarrow>
   files w tmp = None \<and> files w1 = (files w)(tmp \<mapsto> Dir) \<and> is_dir (files w) (tempdir E)
   \<and> stdout w1 = stdout w \<and> (\<exists>name. tmp = tempdir E @ [pre @ name])"
  unfolding mkdtemp_def by (rule mkdtemp_loop_fresh)

lemma mkdtemp_loop_error:
  "mkdtemp_loop r dir pre n w = (Inl e, w1) \<Longrightarrow> files w1 = files w \<and> stdout w1 = stdout w"
proof (induction n arbitrary: w)
  case 0
  then show ?case by simp
next
  case (Suc n)
  obtain name c where nc: "choices r tmp_characters 8 (cursor w) = (name, c)" by force
  show ?case
  proof (cases "path_exists (files w) (dir @ [pre @ name])")
    case True
    with Suc.prems nc have "mkdtemp_loop r dir pre n (w\<lparr>cursor := c\<rparr>) = (Inl e, w1)"
      by (simp add: Let_def)
    from Suc.IH[OF this] show ?thesis by simp
  next
    case False
    with Suc.prems nc show ?thesis
      by (auto simp: Let_def split: if_splits)
  qed
qed

subsection \<open>Writes never destroy a directory\<close>

lemma write_text_result:
  "write_text p s fs = Inr fs' \<Longrightarrow>
   \<exists>m. fs' = fs(p \<mapsto> File s m) \<and> fs p \<noteq> Some Dir \<and> p \<noteq> [] \<and> fs (butlast p) = Some Dir"
  by (auto simp: write_text_def is_dir_def split: if_splits)

lemma append_bytes_result:
  "append_bytes p s fs = Inr fs' \<Longrightarrow>
   \<exists>c m. fs' = fs(p \<mapsto> File c m) \<and> fs p \<noteq> Some Dir
     \<and> length c = file_size fs p + length s"
  by (auto simp: append_bytes_def is_dir_def file_size_def split: option.splits node.splits if_splits)

lemma export_image_dirs: "is_dir fs q \<Longrightarrow> is_dir (export_image out fl fs) q"
proof (induction fl arbitrary: fs)
  case Nil
  then show ?case by simp
next
  case (Cons a fl)
  obtain n c where a: "a = (n, c)" by force
  have "is_dir (if is_dir fs (out @ [n]) then fs else fs(out @ [n] \<mapsto> File c 493)) q"
    using Cons.prems by (auto simp: is_dir_def)
  from Cons.IH[OF this] show ?case by (simp add: a)
qed

lemma export_image_frame:
  "(\<forall>n. q \<noteq> out @ [n]) \<Longrightarrow> export_image out fl fs q = fs q"
  by (induction out fl fs rule: export_image.induct) auto

lemma mkdir_parents_dirs:
  assumes "mkdir_parents p fs = Inr fs'"
  shows "is_dir fs' p" and "is_dir fs q \<Longrightarrow> is_dir fs' q"
  using mkdir_parents_result[OF assms] by (auto simp: is_dir_def)

lemma fresh_not_above:
  assumes "wf_fs fs" "is_dir fs d" "fs t = None"
  shows "\<not> prefix t d"
proof
  assume p: "prefix t d"
  have "fs d \<noteq> None" using assms(2) by (simp add: is_dir_def)
  then have "t = d \<or> fs t = Some Dir" using wf_ancestor[OF assms(1) _ p] by blast
  then show False using assms(2,3) by (auto simp: is_dir_def)
qed


lemma pair_fst_snd: "fst p = a \<Longrightarrow> p = (a, snd p)"
  by (cases p) simp

lemma sum_projr: "\<not> isl x \<Longrightarrow> x = Inr (projr x)"
  by (cases x) simp_all


section \<open>Properties of the build orchestrator\<close>

lemma write_text_dirs: "write_text p s fs = Inr fs' \<Longrightarrow> is_dir fs q \<Longrightarrow> is_dir fs' q"
  by (auto simp: is_dir_def dest!: write_text_result)

lemma write_text_frame: "write_text p s fs = Inr fs' \<Longrightarrow> q \<noteq> p \<Longrightarrow> fs' q = fs q"
  by (auto dest!: write_text_result)

lemma append_bytes_dirs: "append_bytes p s fs = Inr fs' \<Longrightarrow> is_dir fs q \<Longrightarrow> is_dir fs' q"
  by (auto simp: is_dir_def dest!: append_bytes_result)

lemma append_bytes_frame: "append_bytes p s fs = Inr fs' \<Longrightarrow> q \<noteq> p \<Longrightarrow> fs' q = fs q"
  by (auto dest!: append_bytes_result)

lemma write_text_error:
  "write_text p s fs = Inl e \<Longrightarrow> e = IsADirectoryError \<or> e = FileNotFoundError \<or> e = NotADirectoryError"
  by (auto simp: write_text_def lookup_error_def split: if_splits)

text \<open>What materialising the build context and running the build leave behind.\<close>

lemma materialize_effect:
  assumes run: "materialize E tpl tmp w = (r, w1)"
  shows "\<forall>q. q \<noteq> tmp @ [''program.c''] \<longrightarrow> q \<noteq> tmp @ [''Dockerfile'']
             \<longrightarrow> files w1 q = files w q"
    and "\<forall>q. is_dir (files w) q \<longrightarrow> is_dir (files w1) q"
    and "stdout w1 = stdout w"
    and "\<forall>n. r \<noteq> Inl (CalledProcessError n)"
proof -
  obtain flag c where gf: "gen_flag (random_src E) (cursor w) = (flag, c)" by force
  obtain prog c' where pp: "prepare_program_from_template (random_src E) (tbody tpl) flag c = (prog, c')"
    by force
  have eq: "(r, w1) =
      (case write_text (tmp @ [''program.c'']) prog (files w) of
           Inl e \<Rightarrow> (Inl e, w\<lparr>cursor := c'\<rparr>)
         | Inr fs1 \<Rightarrow>
        (case write_text (tmp @ [''Dockerfile'']) DOCKERFILE fs1 of
           Inl e \<Rightarrow> (Inl e, w\<lparr>cursor := c', files := fs1\<rparr>)
         | Inr fs2 \<Rightarrow> (Inr flag, w\<lparr>cursor := c', files := fs2\<rparr>)))"
    using run by (simp add: materialize_def Let_def gf pp)
  have all: "(\<forall>q. q \<noteq> tmp @ [''program.c''] \<longrightarrow> q \<noteq> tmp @ [''Dockerfile'']
             \<longrightarrow> files w1 q = files w q)
     \<and> (\<forall>q. is_dir (files w) q \<longrightarrow> is_dir (files w1) q)
     \<and> stdout w1 = stdout w \<and> (\<forall>n. r \<noteq> Inl (CalledProcessError n))"
  proof (cases "write_text (tmp @ [''program.c'']) prog (files w)")
    case (Inl e)
    with eq have "r = Inl e" "w1 = w\<lparr>cursor := c'\<rparr>" by simp_all
    then show ?thesis using write_text_error[OF Inl] by auto
  next
    case (Inr fs1)
    note f1 = write_text_frame[OF Inr] write_text_dirs[OF Inr]
    show ?thesis
    proof (cases "write_text (tmp @ [''Dockerfile'']) DOCKERFILE fs1")
      case (Inl e)
      with eq Inr have "r = Inl e" "w1 = w\<lparr>cursor := c', files := fs1\<rparr>" by simp_all
      then show ?thesis using write_text_error[OF Inl] f1 by auto
    next
      case fs2: (Inr fs2)
      note f2 = write_text_frame[OF fs2] write_text_dirs[OF fs2]
      from eq Inr fs2 have "r = Inr flag" "w1 = w\<lparr>cursor := c', files := fs2\<rparr>" by simp_all
      then show ?thesis using f1 f2 by auto
    qed
  qed
  from all show "\<forall>q. q \<noteq> tmp @ [''program.c''] \<longrightarrow> q \<noteq> tmp @ [''Dockerfile'']
             \<longrightarrow> files w1 q = files w q" by blast
  from all show "\<forall>q. is_dir (files w) q \<longrightarrow> is_dir (files w1) q" by blast
  from all show "stdout w1 = stdout w" by blast
  from all show "\<forall>n. r \<noteq> Inl (CalledProcessError n)" by blast
qed

lemma select_and_build_effect:
  assumes run: "select_and_build E tpl cfs diff out tmp w = (r, w1)"
  shows "\<exists>ev. is_building ev
          \<and> ((\<exists>e. r = Inl e \<and> (\<forall>n. e \<noteq> CalledProcessError n) \<and> files w1 = files w
                  \<and> (stdout w1 = stdout w \<or> stdout w1 = stdout w @ [ev]))
             \<or> (\<exists>n. r = Inl (CalledProcessError n) \<and> files w1 = files w
                  \<and> stdout w1 = stdout w @ [ev])
             \<or> (\<exists>x fl. r = Inr x \<and> files w1 = export_image out fl (files w)
                  \<and> stdout w1 = stdout w @ [ev]))"
proof (cases "cfs = []")
  case True
  then have "r = Inl IndexError" "w1 = w" using run by (simp_all add: select_and_build_def choice_def)
  moreover have "is_building (Building [] [] [] [])" by (simp add: is_building_def)
  ultimately show ?thesis by blast
next
  case False
  define cf where "cf = cfs ! (random_src E (cursor w) mod length cfs)"
  have ch: "choice (random_src E) cfs (cursor w) = (Inr cf, Suc (cursor w))"
    using False by (simp add: choice_def cf_def)
  define ev where "ev = Building (last out) (tname tpl) cf diff"
  define cmd where "cmd = [''docker'', ''build'', ''--build-arg'', ''CFLAGS='' @ cf,
                    ''--output'', abs_str out, abs_str tmp]"
  define wb where "wb = w\<lparr>cursor := Suc (cursor w), stdout := stdout w @ [ev]\<rparr>"
  have ev: "is_building ev" by (simp add: is_building_def ev_def)
  have wb: "files wb = files w" "stdout wb = stdout w @ [ev]" by (simp_all add: wb_def)
  note unf = select_and_build_def Let_def wb_def ev_def
  show ?thesis
  proof (cases "docker E cmd (files w)")
    case NoSuchProgram
    have "r = Inl FileNotFoundError \<and> w1 = wb"
      using run ch NoSuchProgram[unfolded cmd_def] by (auto simp: unf)
    then show ?thesis using ev wb by auto
  next
    case (BuildFailed n)
    have "r = Inl (CalledProcessError n) \<and> w1 = wb"
      using run ch BuildFailed[unfolded cmd_def] by (auto simp: unf)
    then show ?thesis using ev wb by auto
  next
    case (Exported fl)
    have "r = Inr cf \<and> w1 = wb\<lparr>files := export_image out fl (files w)\<rparr>"
      using run ch Exported[unfolded cmd_def] by (auto simp: unf)
    then show ?thesis using ev wb by auto
  qed
qed

lemma select_and_build_dirs:
  assumes "select_and_build E tpl cfs diff out tmp w = (r, w1)" "is_dir (files w) q"
  shows "is_dir (files w1) q"
  using select_and_build_effect[OF assms(1)] assms(2) export_image_dirs by metis

lemma select_and_build_frame:
  assumes "select_and_build E tpl cfs diff out tmp w = (r, w1)" "\<forall>n. q \<noteq> out @ [n]"
  shows "files w1 q = files w q"
  using select_and_build_effect[OF assms(1)] assms(2) export_image_frame by metis

lemma select_and_build_failed:
  assumes "select_and_build E tpl cfs diff out tmp w = (Inl e, w1)"
  shows "files w1 = files w"
  using select_and_build_effect[OF assms] by auto

lemma select_and_build_events:
  assumes "select_and_build E tpl cfs diff out tmp w = (r, w1)"
  shows "failed_logged (stdout w1) = failed_logged (stdout w)"
    and "(\<exists>x. r = Inr x) \<or> (\<exists>n. r = Inl (CalledProcessError n))
         \<Longrightarrow> builds_started (stdout w1) = Suc (builds_started (stdout w))"
proof -
  from select_and_build_effect[OF assms] obtain ev where ev: "is_building ev"
    and c: "(\<exists>e. r = Inl e \<and> (\<forall>n. e \<noteq> CalledProcessError n)
                  \<and> (stdout w1 = stdout w \<or> stdout w1 = stdout w @ [ev]))
             \<or> ((\<exists>n. r = Inl (CalledProcessError n)) \<or> (\<exists>x. r = Inr x))
                  \<and> stdout w1 = stdout w @ [ev]"
    by blast
  have nf: "\<not> is_build_failed ev" using ev
    by (cases ev) (simp_all add: is_building_def is_build_failed_def)
  show "failed_logged (stdout w1) = failed_logged (stdout w)"
    using c nf by (auto simp: failed_logged_def)
  show "builds_started (stdout w1) = Suc (builds_started (stdout w))"
    if "(\<exists>x. r = Inr x) \<or> (\<exists>n. r = Inl (CalledProcessError n))"
    using c that ev by (auto simp: builds_started_def)
qed

text \<open>The padding step.\<close>

lemma pad_binary_effect:
  assumes "pad_binary E pad_max bin w = (r, w1)"
  shows "\<forall>q. q \<noteq> bin \<longrightarrow> files w1 q = files w q"
    and "\<forall>q. is_dir (files w) q \<longrightarrow> is_dir (files w1) q"
    and "stdout w1 = stdout w"
proof -
  obtain n c where ri: "randint (random_src E) 0 pad_max (cursor w) = (n, c)" by force
  obtain bs c' where ur: "urandom (random_src E) (nat n) c = (bs, c')" by force
  show "\<forall>q. q \<noteq> bin \<longrightarrow> files w1 q = files w q"
    using assms ri ur
    by (auto simp: pad_binary_def Let_def split: if_splits sum.splits dest: append_bytes_frame)
  show "\<forall>q. is_dir (files w) q \<longrightarrow> is_dir (files w1) q"
    using assms ri ur
    by (auto simp: pad_binary_def Let_def split: if_splits sum.splits dest: append_bytes_dirs)
  show "stdout w1 = stdout w"
    using assms ri ur
    by (auto simp: pad_binary_def Let_def split: if_splits sum.splits)
qed


lemma append_bytes_error:
  "append_bytes p s fs = Inl e \<Longrightarrow> e = IsADirectoryError \<or> e = FileNotFoundError \<or> e = NotADirectoryError"
  by (auto simp: append_bytes_def lookup_error_def split: option.splits node.splits if_splits)

lemma pad_binary_error:
  assumes "pad_binary E pad_max bin w = (Inl e, w1)"
  shows "\<forall>n. e \<noteq> CalledProcessError n"
proof -
  obtain n c where ri: "randint (random_src E) 0 pad_max (cursor w) = (n, c)" by force
  obtain bs c' where ur: "urandom (random_src E) (nat n) c = (bs, c')" by force
  show ?thesis using assms ri ur
    by (auto simp: pad_binary_def Let_def split: if_splits sum.splits dest: append_bytes_error)
qed

text \<open>The body of the \<^verbatim>\<open>try\<close>, step by step.\<close>

lemma build_one_try_cases:
  assumes run: "build_one_try E tpl cfs pad_max diff out tmp w = (r, w3)"
  obtains (materialize) e where "materialize E tpl tmp w = (Inl e, w3)" "r = Inl e"
  | (build) flag wa e where "materialize E tpl tmp w = (Inr flag, wa)"
      "select_and_build E tpl cfs diff out tmp wa = (Inl e, w3)" "r = Inl e"
  | (pad) flag wa cflags wb e where "materialize E tpl tmp w = (Inr flag, wa)"
      "select_and_build E tpl cfs diff out tmp wa = (Inr cflags, wb)"
      "pad_binary E pad_max (out @ [''challenge'']) wb = (Inl e, w3)" "r = Inl e"
  | (meta_write) flag wa cflags wb pad_len wc e where "materialize E tpl tmp w = (Inr flag, wa)"
      "select_and_build E tpl cfs diff out tmp wa = (Inr cflags, wb)"
      "pad_binary E pad_max (out @ [''challenge'']) wb = (Inr pad_len, wc)"
      "write_text (out @ [''meta.json''])
         (json_dumps E \<lparr>mo_template = tname tpl, mo_flag = flag, mo_cflags = cflags,
                      mo_pad = pad_len, mo_difficulty = diff\<rparr>) (files wc) = Inl e"
      "r = Inl e" "w3 = wc"
  | (finished) flag wa cflags wb pad_len wc fs1 where "materialize E tpl tmp w = (Inr flag, wa)"
      "select_and_build E tpl cfs diff out tmp wa = (Inr cflags, wb)"
      "pad_binary E pad_max (out @ [''challenge'']) wb = (Inr pad_len, wc)"
      "write_text (out @ [''meta.json''])
         (json_dumps E \<lparr>mo_template = tname tpl, mo_flag = flag, mo_cflags = cflags,
                      mo_pad = pad_len, mo_difficulty = diff\<rparr>) (files wc) = Inr fs1"
      "r = Inr \<lparr>mo_template = tname tpl, mo_flag = flag, mo_cflags = cflags,
                      mo_pad = pad_len, mo_difficulty = diff\<rparr>"
      "w3 = wc\<lparr>files := fs1, stdout := stdout wc @ [Built out flag pad_len]\<rparr>"
proof -
  obtain r0 wa where m: "materialize E tpl tmp w = (r0, wa)" by force
  show ?thesis
  proof (cases r0)
    case (Inl e)
    with run m have "r = Inl e" "w3 = wa" by (simp_all add: build_one_try_def)
    with m Inl show ?thesis using materialize by simp
  next
    case flag: (Inr flag)
    obtain r1 wb where b: "select_and_build E tpl cfs diff out tmp wa = (r1, wb)" by force
    show ?thesis
    proof (cases r1)
      case (Inl e)
      with run m flag b have "r = Inl e" "w3 = wb" by (simp_all add: build_one_try_def)
      with m flag b Inl show ?thesis using build by simp
    next
      case cflags: (Inr cflags)
      obtain r2 wc where p: "pad_binary E pad_max (out @ [''challenge'']) wb = (r2, wc)" by force
      show ?thesis
      proof (cases r2)
        case (Inl e)
        with run m flag b cflags p have "r = Inl e" "w3 = wc" by (simp_all add: build_one_try_def)
        with m flag b cflags p Inl show ?thesis using pad by simp
      next
        case pl: (Inr pad_len)
        let ?m = "\<lparr>mo_template = tname tpl, mo_flag = flag, mo_cflags = cflags,
                      mo_pad = pad_len, mo_difficulty = diff\<rparr>"
        show ?thesis
        proof (cases "write_text (out @ [''meta.json'']) (json_dumps E ?m) (files wc)")
          case (Inl e)
          with run m flag b cflags p pl have "r = Inl e" "w3 = wc"
            by (simp_all add: build_one_try_def Let_def)
          with m flag b cflags p pl Inl show ?thesis using meta_write by simp
        next
          case (Inr fs1)
          with run m flag b cflags p pl have "r = Inr ?m"
              "w3 = wc\<lparr>files := fs1, stdout := stdout wc @ [Built out flag pad_len]\<rparr>"
            by (simp_all add: build_one_try_def Let_def)
          with m flag b cflags p pl Inr show ?thesis using finished by simp
        qed
      qed
    qed
  qed
qed

lemma materialize_dirs:
  "materialize E tpl tmp w = (r, w1) \<Longrightarrow> is_dir (files w) q \<Longrightarrow> is_dir (files w1) q"
  using materialize_effect(2) by blast

lemma pad_binary_dirs:
  "pad_binary E pad_max bin w = (r, w1) \<Longrightarrow> is_dir (files w) q \<Longrightarrow> is_dir (files w1) q"
  using pad_binary_effect(2) by blast

lemma build_one_try_dirs:
  assumes run: "build_one_try E tpl cfs pad_max diff out tmp w = (r, w3)"
    and d: "is_dir (files w) q"
  shows "is_dir (files w3) q"
  using run
proof (cases rule: build_one_try_cases)
  case (materialize e)
  show ?thesis by (rule materialize_dirs[OF materialize(1) d])
next
  case (build flag wa e)
  show ?thesis
    by (rule select_and_build_dirs[OF build(2) materialize_dirs[OF build(1) d]])
next
  case (pad flag wa cflags wb e)
  show ?thesis
    by (rule pad_binary_dirs[OF pad(3) select_and_build_dirs[OF pad(2) materialize_dirs[OF pad(1) d]]])
next
  case (meta_write flag wa cflags wb pad_len wc e)
  show ?thesis unfolding meta_write(6)
    by (rule pad_binary_dirs[OF meta_write(3)
          select_and_build_dirs[OF meta_write(2) materialize_dirs[OF meta_write(1) d]]])
next
  case (finished flag wa cflags wb pad_len wc fs1)
  have "is_dir (files wc) q"
    by (rule pad_binary_dirs[OF finished(3)
          select_and_build_dirs[OF finished(2) materialize_dirs[OF finished(1) d]]])
  then have "is_dir fs1 q" using write_text_dirs[OF finished(4)] by simp
  then show ?thesis using finished(6) by simp
qed

lemma build_one_try_build_failed:
  assumes run: "build_one_try E tpl cfs pad_max diff out tmp w = (Inl (CalledProcessError n), w3)"
    and q: "q \<noteq> tmp @ [''program.c'']" "q \<noteq> tmp @ [''Dockerfile'']"
  shows "files w3 q = files w q"
  using run
proof (cases rule: build_one_try_cases)
  case (materialize e)
  then show ?thesis using materialize_effect(4)[OF materialize(1)] by blast
next
  case (build flag wa e)
  then show ?thesis
    using materialize_effect(1)[OF build(1)] select_and_build_failed[OF build(2)] q by simp
next
  case (pad flag wa cflags wb e)
  then show ?thesis using pad_binary_error[OF pad(3)] by blast
next
  case (meta_write flag wa cflags wb pad_len wc e)
  then show ?thesis using write_text_error[OF meta_write(4)] by blast
next
  case (finished flag wa cflags wb pad_len wc fs1)
  then show ?thesis by simp
qed

lemma count_append [simp]:
  "failed_logged (evs @ [ev]) = failed_logged evs + (if is_build_failed ev then 1 else 0)"
  "builds_started (evs @ [ev]) = builds_started evs + (if is_building ev then 1 else 0)"
  by (simp_all add: failed_logged_def builds_started_def)

lemma build_one_try_events:
  assumes run: "build_one_try E tpl cfs pad_max diff out tmp w = (r, w3)"
  shows "failed_logged (stdout w3) = failed_logged (stdout w)"
    and "(\<exists>x. r = Inr x) \<or> (\<exists>n. r = Inl (CalledProcessError n))
         \<Longrightarrow> builds_started (stdout w3) = Suc (builds_started (stdout w))"
proof -
  have "failed_logged (stdout w3) = failed_logged (stdout w)
      \<and> ((\<exists>x. r = Inr x) \<or> (\<exists>n. r = Inl (CalledProcessError n))
         \<longrightarrow> builds_started (stdout w3) = Suc (builds_started (stdout w)))"
    using run
  proof (cases rule: build_one_try_cases)
    case (materialize e)
    then show ?thesis
      using materialize_effect(3)[OF materialize(1)] materialize_effect(4)[OF materialize(1)]
      by auto
  next
    case (build flag wa e)
    then show ?thesis
      using materialize_effect(3)[OF build(1)] select_and_build_events[OF build(2)] by auto
  next
    case (pad flag wa cflags wb e)
    then show ?thesis
      using materialize_effect(3)[OF pad(1)] select_and_build_events[OF pad(2)]
        pad_binary_effect(3)[OF pad(3)] pad_binary_error[OF pad(3)] by auto
  next
    case (meta_write flag wa cflags wb pad_len wc e)
    then show ?thesis
      using materialize_effect(3)[OF meta_write(1)] select_and_build_events[OF meta_write(2)]
        pad_binary_effect(3)[OF meta_write(3)] write_text_error[OF meta_write(4)] by auto
  next
    case (finished flag wa cflags wb pad_len wc fs1)
    then show ?thesis
      using materialize_effect(3)[OF finished(1)] select_and_build_events[OF finished(2)]
        pad_binary_effect(3)[OF finished(3)]
      by (auto simp: is_build_failed_def is_building_def)
  qed
  then show "failed_logged (stdout w3) = failed_logged (stdout w)"
    and "(\<exists>x. r = Inr x) \<or> (\<exists>n. r = Inl (CalledProcessError n))
         \<Longrightarrow> builds_started (stdout w3) = Suc (builds_started (stdout w))" by blast+
qed

text \<open>The \<^verbatim>\<open>finally\<close>.\<close>

lemma build_one_finally_removes:
  assumes "is_dir (files w) tmp" "\<not> prefix tmp (workdir E)"
  shows "files (build_one_finally E tmp w) = (\<lambda>q. if prefix tmp q then None else files w q)"
  using assms
  by (simp add: build_one_finally_def rmtree_def path_exists_def is_dir_def is_file_def)

lemma build_one_finally_events:
  "failed_logged (stdout (build_one_finally E tmp w)) = failed_logged (stdout w)"
  "builds_started (stdout (build_one_finally E tmp w)) = builds_started (stdout w)"
  by (auto simp: build_one_finally_def is_build_failed_def is_building_def split: sum.splits)

lemma load_metadata_effect:
  assumes "load_metadata tpl w = (meta, wm)"
  shows "files wm = files w" "cursor wm = cursor w"
    "failed_logged (stdout wm) = failed_logged (stdout w)"
    "builds_started (stdout wm) = builds_started (stdout w)"
  using assms
  by (auto simp: load_metadata_def is_build_failed_def is_building_def split: sidecar.splits)

text \<open>One job, step by step.\<close>

lemma build_one_cases:
  assumes run: "build_one E tpl idx w = (r, w')"
    and lm: "load_metadata tpl w = (meta, wm)"
  obtains (mkdir) e where "mkdir_parents (job_out_dir E tpl idx) (files w) = Inl e"
      "r = Inl e" "w' = wm"
  | (mkdtemp) fs1 e where "mkdir_parents (job_out_dir E tpl idx) (files w) = Inr fs1"
      "mkdtemp E (ctx_prefix tpl idx) (wm\<lparr>files := fs1\<rparr>) = (Inl e, w')" "r = Inl e"
  | (tried) fs1 tmp w1 w2 where "mkdir_parents (job_out_dir E tpl idx) (files w) = Inr fs1"
      "mkdtemp E (ctx_prefix tpl idx) (wm\<lparr>files := fs1\<rparr>) = (Inr tmp, w1)"
      "build_one_try E tpl (cflags_choices_of meta) (pad_max_of meta) (difficulty_of meta)
         (job_out_dir E tpl idx) tmp w1 = (r, w2)"
      "w' = build_one_finally E tmp w2"
proof -
  have fw: "files wm = files w" using load_metadata_effect(1)[OF lm] .
  show ?thesis
  proof (cases "mkdir_parents (job_out_dir E tpl idx) (files w)")
    case (Inl e)
    then have "r = Inl e" "w' = wm" using run lm fw by (simp_all add: build_one_def Let_def)
    with Inl show ?thesis using mkdir by simp
  next
    case (Inr fs1)
    obtain r1 w1 where t: "mkdtemp E (ctx_prefix tpl idx) (wm\<lparr>files := fs1\<rparr>) = (r1, w1)" by force
    show ?thesis
    proof (cases r1)
      case (Inl e)
      then have "r = Inl e" "w' = w1" using run lm fw Inr t by (simp_all add: build_one_def Let_def)
      with Inr t Inl show ?thesis using mkdtemp by simp
    next
      case tmp: (Inr tmp)
      obtain r2 w2 where b: "build_one_try E tpl (cflags_choices_of meta) (pad_max_of meta)
         (difficulty_of meta) (job_out_dir E tpl idx) tmp w1 = (r2, w2)" by force
      then have "r = r2" "w' = build_one_finally E tmp w2"
        using run lm fw Inr t tmp by (simp_all add: build_one_def Let_def)
      with Inr t tmp b show ?thesis using tried by simp
    qed
  qed
qed

lemma mkdtemp_error:
  "mkdtemp E pre w = (Inl e, w1) \<Longrightarrow>
   files w1 = files w \<and> stdout w1 = stdout w \<and> (\<forall>n. e \<noteq> CalledProcessError n)"
proof -
  have "mkdtemp_loop r dir pre n w = (Inl e, w1) \<Longrightarrow> (\<forall>k. e \<noteq> CalledProcessError k)"
    for r dir n w
  proof (induction n arbitrary: w)
    case 0
    then show ?case by auto
  next
    case (Suc n)
    obtain name c where nc: "choices r tmp_characters 8 (cursor w) = (name, c)" by force
    show ?case
    proof (cases "path_exists (files w) (dir @ [pre @ name])")
      case True
      with Suc.prems nc have "mkdtemp_loop r dir pre n (w\<lparr>cursor := c\<rparr>) = (Inl e, w1)"
        by (simp add: Let_def)
      from Suc.IH[OF this] show ?thesis .
    next
      case False
      with Suc.prems nc show ?thesis
        by (auto simp: Let_def lookup_error_def split: if_splits)
    qed
  qed
  then show "mkdtemp E pre w = (Inl e, w1) \<Longrightarrow>
   files w1 = files w \<and> stdout w1 = stdout w \<and> (\<forall>n. e \<noteq> CalledProcessError n)"
    unfolding mkdtemp_def using mkdtemp_loop_error by blast
qed

lemma mkdir_parents_error:
  "mkdir_parents p fs = Inl e \<Longrightarrow> \<forall>n. e \<noteq> CalledProcessError n"
  by (auto simp: mkdir_parents_def split: if_splits)

text \<open>A job whose build failed leaves nothing but its output directory.\<close>

lemma failed_job_files:
  assumes wf: "wf_fs (files w)" and cwd: "is_dir (files w) (workdir E)"
    and run: "build_one E tpl idx w = (Inl (CalledProcessError n), w')"
  shows "mkdir_parents (job_out_dir E tpl idx) (files w) = Inr (files w')"
proof -
  obtain meta wm where lm: "load_metadata tpl w = (meta, wm)" by force
  from run lm show ?thesis
  proof (cases rule: build_one_cases)
    case (mkdir e)
    then show ?thesis using mkdir_parents_error by blast
  next
    case (mkdtemp fs1 e)
    then show ?thesis using mkdtemp_error by blast
  next
    case (tried fs1 tmp w1 w2)
    have wf1: "wf_fs fs1" by (rule wf_mkdir_parents[OF wf tried(1)])
    have cwd1: "is_dir fs1 (workdir E)" by (rule mkdir_parents_dirs(2)[OF tried(1) cwd])
    from mkdtemp_fresh[OF tried(2)] have fresh: "fs1 tmp = None"
      and w1: "files w1 = fs1(tmp \<mapsto> Dir)" by simp_all
    have na: "\<not> prefix tmp (workdir E)" by (rule fresh_not_above[OF wf1 cwd1 fresh])
    have "is_dir (files w1) tmp" by (simp add: w1 is_dir_def)
    then have d2: "is_dir (files w2) tmp" by (rule build_one_try_dirs[OF tried(3)])
    have fin: "files w' = (\<lambda>q. if prefix tmp q then None else files w2 q)"
      unfolding tried(4) by (rule build_one_finally_removes[OF d2 na])
    have "files w' q = fs1 q" for q
    proof (cases "prefix tmp q")
      case True
      have "fs1 q = None"
      proof (cases "q = tmp")
        case True
        then show ?thesis using fresh by simp
      next
        case False
        then show ?thesis using wf_nothing_below[OF wf1 _ True] fresh by simp
      qed
      then show ?thesis using True fin by simp
    next
      case False
      then have "q \<noteq> tmp @ [''program.c'']" "q \<noteq> tmp @ [''Dockerfile'']" "q \<noteq> tmp" by auto
      then have "files w2 q = fs1 q"
        using build_one_try_build_failed[OF tried(3), of q] w1 by simp
      then show ?thesis using False fin by simp
    qed
    then have "files w' = fs1" by (rule ext)
    then show ?thesis using tried(1) by simp
  qed
qed

lemma build_one_events:
  assumes run: "build_one E tpl idx w = (r, w')"
  shows "failed_logged (stdout w') = failed_logged (stdout w)"
    and "(\<exists>x. r = Inr x) \<or> (\<exists>n. r = Inl (CalledProcessError n))
         \<Longrightarrow> builds_started (stdout w') = Suc (builds_started (stdout w))"
proof -
  obtain meta wm where lm: "load_metadata tpl w = (meta, wm)" by force
  note le = load_metadata_effect[OF lm]
  have "failed_logged (stdout w') = failed_logged (stdout w)
      \<and> ((\<exists>x. r = Inr x) \<or> (\<exists>n. r = Inl (CalledProcessError n))
         \<longrightarrow> builds_started (stdout w') = Suc (builds_started (stdout w)))"
    using run lm
  proof (cases rule: build_one_cases)
    case (mkdir e)
    then show ?thesis using le mkdir_parents_error[OF mkdir(1)] by auto
  next
    case (mkdtemp fs1 e)
    then show ?thesis using le mkdtemp_error[OF mkdtemp(2)] by auto
  next
    case (tried fs1 tmp w1 w2)
    have "stdout w1 = stdout wm" using mkdtemp_fresh[OF tried(2)] by simp
    then show ?thesis
      using le build_one_try_events[OF tried(3)] build_one_finally_events[of E tmp w2] tried(4)
      by auto
  qed
  then show "failed_logged (stdout w') = failed_logged (stdout w)"
    and "(\<exists>x. r = Inr x) \<or> (\<exists>n. r = Inl (CalledProcessError n))
         \<Longrightarrow> builds_started (stdout w') = Suc (builds_started (stdout w))" by blast+
qed

text \<open>The loop of the driver.\<close>

lemma job_loop_completes:
  "job_loop E ts js results w = (Inr rs, w') \<Longrightarrow>
   length rs + failed_logged (stdout w') = length results + failed_logged (stdout w) + length js
   \<and> builds_started (stdout w') = builds_started (stdout w) + length js
   \<and> length results \<le> length rs \<and> length rs \<le> length results + length js"
proof (induction js arbitrary: results w)
  case Nil
  then show ?case by simp
next
  case (Cons i js)
  show ?case
  proof (cases "ts = []")
    case True
    with Cons.prems show ?thesis by (simp add: choice_def)
  next
    case False
    define tpl where "tpl = ts ! (random_src E (cursor w) mod length ts)"
    have ch: "choice (random_src E) ts (cursor w) = (Inr tpl, Suc (cursor w))"
      using False by (simp add: choice_def tpl_def)
    obtain r w1 where b: "build_one E tpl i (w\<lparr>cursor := Suc (cursor w)\<rparr>) = (r, w1)" by force
    note ev = build_one_events[OF b]
    show ?thesis
    proof (cases r)
      case (Inr m)
      with Cons.prems ch b have "job_loop E ts js (results @ [m]) w1 = (Inr rs, w')" by simp
      from Cons.IH[OF this] ev Inr show ?thesis by simp
    next
      case (Inl e)
      show ?thesis
      proof (cases e)
        case (CalledProcessError n)
        with Cons.prems ch b Inl have "job_loop E ts js results
            (w1\<lparr>stdout := stdout w1 @ [DockerBuildFailed (tname tpl) (CalledProcessError n)]\<rparr>)
            = (Inr rs, w')" by simp
        from Cons.IH[OF this] ev Inl CalledProcessError show ?thesis
          by (simp add: is_build_failed_def is_building_def)
      qed (use Cons.prems ch b Inl in simp_all)
    qed
  qed
qed

lemma job_loop_halts:
  "job_loop E ts js results w = (Inl e, w') \<Longrightarrow> ts \<noteq> [] \<Longrightarrow>
   (\<forall>n. e \<noteq> CalledProcessError n)
   \<and> (\<exists>tpl\<in>set ts. \<exists>i\<in>set js. \<exists>wa. build_one E tpl i wa = (Inl e, w'))"
proof (induction js arbitrary: results w)
  case Nil
  then show ?case by simp
next
  case (Cons i js)
  define tpl where "tpl = ts ! (random_src E (cursor w) mod length ts)"
  have ch: "choice (random_src E) ts (cursor w) = (Inr tpl, Suc (cursor w))"
    using Cons.prems(2) by (simp add: choice_def tpl_def)
  have mem: "tpl \<in> set ts" using Cons.prems(2) by (simp add: tpl_def)
  obtain r w1 where b: "build_one E tpl i (w\<lparr>cursor := Suc (cursor w)\<rparr>) = (r, w1)" by force
  show ?case
  proof (cases r)
    case (Inr m)
    with Cons.prems ch b have "job_loop E ts js (results @ [m]) w1 = (Inl e, w')" by simp
    from Cons.IH[OF this Cons.prems(2)] show ?thesis by auto
  next
    case (Inl e1)
    show ?thesis
    proof (cases "\<exists>n. e1 = CalledProcessError n")
      case True
      then obtain n where n: "e1 = CalledProcessError n" by blast
      with Cons.prems ch b Inl have "job_loop E ts js results
            (w1\<lparr>stdout := stdout w1 @ [DockerBuildFailed (tname tpl) (CalledProcessError n)]\<rparr>)
            = (Inl e, w')" by simp
      from Cons.IH[OF this Cons.prems(2)] show ?thesis by auto
    next
      case False
      then have "e = e1 \<and> w' = w1" using Cons.prems(1) ch b Inl by (cases e1) simp_all
      then show ?thesis using False b Inl mem by auto
    qed
  qed
qed

subsection \<open>The example runs\<close>

lemma wf_demo_fs: "wf_fs demo_fs"
  by (auto simp: wf_fs_def demo_fs_def split: if_splits)

lemma demo_world_ok: "wf_fs (files demo_world)" "is_dir (files demo_world) [''home'']"
  using wf_demo_fs by (simp_all add: demo_world_def demo_fs_def is_dir_def)

lemma demo_out_dir:
  "job_out_dir failing_env demo_tpl 0 = [''home'', ''out'', ''a_0'']"
  "job_out_dir demo_env demo_tpl 0 = [''home'', ''out'', ''a_0'']"
  "workdir failing_env = [''home'']" "workdir demo_env = [''home'']"
  by code_simp+

lemma failing_job:
  "fst (build_one failing_env demo_tpl 0 (demo_world\<lparr>cursor := 1\<rparr>)) = Inl (CalledProcessError 1)"
  by code_simp


subsection \<open>Claims about the build orchestrator\<close>






text \<open>
  Claim C5 (as amended).  In a run against a non-empty discovered template set, a build
  failure never ends the run.  A run that reaches its summary has started exactly
  \<open>NUM\<close> builds, and its recorded metadata entries and its logged build failures
  together number exactly \<open>NUM\<close> (so there are at most \<open>NUM\<close> entries, and each failed
  build was logged once).  A run ends early only when the output base cannot be created
  or when a job raises an error other than a build failure, which the driver does not
  catch.
\<close>

theorem driver_runs_all_jobs:
  assumes ts: "list_templates E = Inr ts" and ne: "ts \<noteq> []"
  shows "(\<forall>rs w'. gen_main E w = (Inr rs, w') \<longrightarrow>
            length rs + failed_logged (stdout w') = NUM + failed_logged (stdout w)
          \<and> builds_started (stdout w') = NUM + builds_started (stdout w)
          \<and> length rs \<le> NUM)
     \<and> (\<forall>e w'. gen_main E w = (Inl e, w') \<longrightarrow>
            (\<forall>n. e \<noteq> CalledProcessError n)
          \<and> (mkdir_exist_ok (OUT_BASE E) (files w) = Inl e
             \<or> (\<exists>tpl\<in>set ts. \<exists>i<NUM. \<exists>wa. build_one E tpl i wa = (Inl e, w'))))"
proof (cases "mkdir_exist_ok (OUT_BASE E) (files w)")
  case (Inl e)
  then have "gen_main E w = (Inl e, w)" by (simp add: gen_main_def)
  moreover have "\<forall>n. e \<noteq> CalledProcessError n"
    using Inl by (auto simp: mkdir_exist_ok_def lookup_error_def split: if_splits)
  ultimately show ?thesis using Inl by simp
next
  case (Inr fs1)
  let ?w = "w\<lparr>files := fs1\<rparr>"
  obtain r w1 where jl: "job_loop E ts [0..<NUM] [] ?w = (r, w1)" by force
  show ?thesis
  proof (cases r)
    case (Inl e)
    then have gm: "gen_main E w = (Inl e, w1)"
      using Inr ts ne jl by (simp add: gen_main_def)
    from job_loop_halts[OF jl[unfolded Inl] ne]
    obtain tpl i wa where nc: "\<forall>n. e \<noteq> CalledProcessError n"
      and h: "tpl \<in> set ts" "i \<in> set [0..<NUM]" "build_one E tpl i wa = (Inl e, w1)"
      by blast
    from h(2) have "i < NUM" by simp
    with nc h have "(\<forall>n. e \<noteq> CalledProcessError n)
       \<and> (\<exists>tpl\<in>set ts. \<exists>i<NUM. \<exists>wa. build_one E tpl i wa = (Inl e, w1))"
      by blast
    then show ?thesis using gm by simp
  next
    case rs: (Inr rs)
    then have gm: "gen_main E w
        = (Inr rs, w1\<lparr>stdout := stdout w1 @ SummaryHeader # map SummaryItem rs\<rparr>)"
      using Inr ts ne jl by (simp add: gen_main_def)
    have cnt: "failed_logged (evs @ SummaryHeader # map SummaryItem rs) = failed_logged evs"
      "builds_started (evs @ SummaryHeader # map SummaryItem rs) = builds_started evs" for evs
      by (simp_all add: failed_logged_def builds_started_def is_build_failed_def is_building_def
          filter_empty_conv)
    from job_loop_completes[OF jl[unfolded rs]]
    have "length rs + failed_logged (stdout w1) = NUM + failed_logged (stdout w)"
      "builds_started (stdout w1) = NUM + builds_started (stdout w)" "length rs \<le> NUM"
      by simp_all
    then show ?thesis using gm cnt by simp
  qed
qed

theorem driver_runs_all_jobs_witness:
  "list_templates failing_env = Inr [demo_tpl] \<and> [demo_tpl] \<noteq> []
   \<and> fst (gen_main failing_env demo_world) = Inr []
   \<and> failed_logged (stdout (snd (gen_main failing_env demo_world))) = NUM
   \<and> builds_started (stdout (snd (gen_main failing_env demo_world))) = NUM"
proof -
  let ?run = "gen_main failing_env demo_world"
  have h1: "list_templates failing_env = Inr [demo_tpl]" by code_simp
  have h2: "[demo_tpl] \<noteq> []" by simp
  have h3: "fst ?run = Inr []" by code_simp
  have z: "failed_logged (stdout demo_world) = 0" "builds_started (stdout demo_world) = 0"
    by (simp_all add: demo_world_def failed_logged_def builds_started_def)
  note th = driver_runs_all_jobs[OF h1 h2, of demo_world, THEN conjunct1, rule_format,
      OF pair_fst_snd[OF h3]]
  from th z
  have "failed_logged (stdout (snd ?run)) = NUM" "builds_started (stdout (snd ?run)) = NUM"
    by simp_all
  then show ?thesis using h1 h3 by simp
qed


text \<open>The claim as first stated fails for a template whose sidecar gives an empty list of
  compile flags: the first job raises \<^verbatim>\<open>IndexError\<close>, the driver does not catch it,
  no build is started and nothing is logged.\<close>

theorem driver_halts_counterexample:
  "list_templates no_cflags_env = Inr [no_cflags_tpl]
   \<and> fst (gen_main no_cflags_env demo_world) = Inl IndexError
   \<and> builds_started (stdout (snd (gen_main no_cflags_env demo_world))) = 0
   \<and> failed_logged (stdout (snd (gen_main no_cflags_env demo_world))) = 0"
  by code_simp

text \<open>
  Claim C6.  Whatever the outcome of a job, the build context directory that the job
  created is gone when the job returns: it did not exist before the job, and afterwards
  neither it nor anything below it exists, so nothing of it is left for a later job.
\<close>

theorem build_context_removed:
  assumes wf: "wf_fs (files w)" and cwd: "is_dir (files w) (workdir E)"
    and mk: "mkdir_parents (job_out_dir E tpl idx) (files w) = Inr fs1"
    and tmp: "mkdtemp E (ctx_prefix tpl idx) ((snd (load_metadata tpl w))\<lparr>files := fs1\<rparr>)
                = (Inr tmp, w1)"
    and run: "build_one E tpl idx w = (r, w')"
  shows "files w tmp = None \<and> (\<forall>q. prefix tmp q \<longrightarrow> files w' q = None)"
proof -
  obtain meta wm where lm: "load_metadata tpl w = (meta, wm)" by force
  have wf1: "wf_fs fs1" by (rule wf_mkdir_parents[OF wf mk])
  have cwd1: "is_dir fs1 (workdir E)" by (rule mkdir_parents_dirs(2)[OF mk cwd])
  from tmp lm have tmp': "mkdtemp E (ctx_prefix tpl idx) (wm\<lparr>files := fs1\<rparr>) = (Inr tmp, w1)"
    by simp
  from mkdtemp_fresh[OF tmp'] have fresh: "fs1 tmp = None"
    and w1: "files w1 = fs1(tmp \<mapsto> Dir)" by simp_all
  have na: "\<not> prefix tmp (workdir E)" by (rule fresh_not_above[OF wf1 cwd1 fresh])
  have before: "files w tmp = None"
  proof (cases "prefix tmp (job_out_dir E tpl idx)")
    case True
    then show ?thesis using fresh mkdir_parents_result[OF mk] by simp
  next
    case False
    then show ?thesis using fresh mkdir_parents_keeps_files[OF mk False] by simp
  qed
  from run lm have "\<forall>q. prefix tmp q \<longrightarrow> files w' q = None"
  proof (cases rule: build_one_cases)
    case (mkdir e)
    then show ?thesis using mk by simp
  next
    case (mkdtemp fs1' e)
    then show ?thesis using mk tmp' by simp
  next
    case (tried fs1' tmp' w1' w2)
    from tried(1) mk have e1: "fs1' = fs1" by simp
    from tried(2) tmp' have e2: "tmp' = tmp" "w1' = w1" unfolding e1 by simp_all
    have "is_dir (files w1) tmp" by (simp add: w1 is_dir_def)
    then have d2: "is_dir (files w2) tmp"
      by (rule build_one_try_dirs[OF tried(3)[unfolded e2]])
    show ?thesis unfolding tried(4) e2 build_one_finally_removes[OF d2 na] by simp
  qed
  with before show ?thesis by simp
qed


theorem build_context_removed_witness:
  "wf_fs (files demo_world) \<and> is_dir (files demo_world) (workdir demo_env)
   \<and> \<not> isl (mkdir_parents (job_out_dir demo_env demo_tpl 0) (files demo_world))
   \<and> fst (mkdtemp demo_env (ctx_prefix demo_tpl 0)
        ((snd (load_metadata demo_tpl demo_world))
           \<lparr>files := projr (mkdir_parents (job_out_dir demo_env demo_tpl 0) (files demo_world))\<rparr>))
       = Inr [''tmp'', ''ctx_a_0_abcdefgh'']
   \<and> files demo_world [''tmp'', ''ctx_a_0_abcdefgh''] = None
   \<and> files (snd (build_one demo_env demo_tpl 0 demo_world)) [''tmp'', ''ctx_a_0_abcdefgh''] = None
   \<and> files (snd (build_one demo_env demo_tpl 0 demo_world))
        [''tmp'', ''ctx_a_0_abcdefgh'', ''program.c''] = None"
proof -
  let ?fs1 = "projr (mkdir_parents (job_out_dir demo_env demo_tpl 0) (files demo_world))"
  let ?tmp = "[''tmp'', ''ctx_a_0_abcdefgh'']"
  let ?run = "build_one demo_env demo_tpl 0 demo_world"
  have h1: "wf_fs (files demo_world)" "is_dir (files demo_world) (workdir demo_env)"
    using demo_world_ok by (simp_all add: demo_out_dir)
  have h2: "\<not> isl (mkdir_parents (job_out_dir demo_env demo_tpl 0) (files demo_world))"
    by code_simp
  have h3: "fst (mkdtemp demo_env (ctx_prefix demo_tpl 0)
        ((snd (load_metadata demo_tpl demo_world))\<lparr>files := ?fs1\<rparr>)) = Inr ?tmp"
    by code_simp
  have h4: "?run = (fst ?run, snd ?run)" by simp
  note th = build_context_removed[OF h1 sum_projr[OF h2] pair_fst_snd[OF h3] h4]
  have "files (snd ?run) ?tmp = None" using th by simp
  moreover have "files (snd ?run) (?tmp @ [''program.c'']) = None" using th by simp
  ultimately show ?thesis using th h1 h2 h3 by simp
qed


text \<open>
  Claim C9.  After a job whose build failed, the job's output directory exists (it was
  created before the build and is not removed), and the file \<^verbatim>\<open>meta.json\<close> in it is
  what it was before the job: the job has written none.
\<close>

theorem failed_job_keeps_out_dir:
  assumes wf: "wf_fs (files w)" and cwd: "is_dir (files w) (workdir E)"
    and run: "build_one E tpl idx w = (Inl (CalledProcessError n), w')"
  shows "is_dir (files w') (job_out_dir E tpl idx)
     \<and> files w' (job_out_dir E tpl idx @ [''meta.json''])
         = files w (job_out_dir E tpl idx @ [''meta.json''])"
proof -
  note mk = failed_job_files[OF wf cwd run]
  have "\<not> prefix (job_out_dir E tpl idx @ [''meta.json'']) (job_out_dir E tpl idx)"
    by (simp add: prefix_def)
  then show ?thesis
    using mkdir_parents_dirs(1)[OF mk] mkdir_parents_keeps_files[OF mk] by simp
qed


theorem failed_job_keeps_out_dir_witness:
  "wf_fs (files (demo_world\<lparr>cursor := 1\<rparr>))
   \<and> is_dir (files (demo_world\<lparr>cursor := 1\<rparr>)) (workdir failing_env)
   \<and> fst (build_one failing_env demo_tpl 0 (demo_world\<lparr>cursor := 1\<rparr>)) = Inl (CalledProcessError 1)
   \<and> is_dir (files (snd (build_one failing_env demo_tpl 0 (demo_world\<lparr>cursor := 1\<rparr>))))
        [''home'', ''out'', ''a_0'']
   \<and> files (snd (build_one failing_env demo_tpl 0 (demo_world\<lparr>cursor := 1\<rparr>)))
        [''home'', ''out'', ''a_0'', ''meta.json''] = None"
proof -
  let ?w = "demo_world\<lparr>cursor := 1\<rparr>"
  let ?run = "build_one failing_env demo_tpl 0 ?w"
  have h1: "wf_fs (files ?w)" "is_dir (files ?w) (workdir failing_env)"
    using demo_world_ok by (simp_all add: demo_out_dir)
  have none: "files ?w [''home'', ''out'', ''a_0'', ''meta.json''] = None"
    by (simp add: demo_world_def demo_fs_def)
  from failed_job_keeps_out_dir[OF h1 pair_fst_snd[OF failing_job]] none
  have "is_dir (files (snd ?run)) [''home'', ''out'', ''a_0'']"
    "files (snd ?run) [''home'', ''out'', ''a_0'', ''meta.json''] = None"
    by (simp_all add: demo_out_dir)
  then show ?thesis using h1 failing_job by simp
qed


end
